theory Spec2Isabelle
  imports Main "HOL-Library.Word" "HOL-Library.Multiset"
begin

section \<open>Data model of database/ffldb/transaction.go\<close>

text \<open>
  A Go byte slice is modelled by its contents. Where the source uses the nil slice as
  the answer "no such key" (\<open>fetchKey\<close>, \<open>fetchPendingRegion\<close>), the model returns
  \<open>None\<close>; stored values are never nil. A \<open>chainhash.Hash\<close> is a 32-byte array and is
  modelled by its bytes.
\<close>

type_synonym byteslice = "8 word list"
type_synonym chainhash = "8 word list"

datatype errorCode =
    ErrTxClosed
  | ErrTxNotWritable
  | ErrBlockExists
  | ErrBlockNotFound
  | ErrBlockRegionInvalid
  | ErrDriverSpecific
  | ErrCorruption

text \<open>
  \<open>makeDbErr code desc cause\<close> builds a \<open>database.Error\<close>; the description string is
  formatted text for people and is left out. \<open>FmtError\<close> is the plain error that
  \<open>fmt.Errorf\<close> returns in \<open>PruneBlocks\<close>, \<open>OtherError n\<close> any other error value that a
  collaborator hands back.
\<close>

datatype error =
    DbError errorCode "error option"
  | FmtError
  | OtherError nat

definition makeDbErr :: "errorCode \<Rightarrow> error option \<Rightarrow> error" where
  "makeDbErr c cause = DbError c cause"

text \<open>
  What a call does: it returns a value, returns an error, or panics (a nil pointer
  dereference, an index out of range, or an explicit \<open>panic\<close>).
\<close>

datatype 'a result = Ok 'a | Err error | Panic string

abbreviation nilDereference :: "'a result" where
  "nilDereference \<equiv> Panic ''invalid memory address or nil pointer dereference''"

abbreviation indexOutOfRange :: "'a result" where
  "indexOutOfRange \<equiv> Panic ''index out of range''"

record blockLocation =
  blockFileNum :: "32 word"
  fileOffset :: "32 word"
  blockLen :: "32 word"

record bulkFetchData =
  location :: blockLocation
  replyIndex :: nat

record pendingBlock =
  hash :: chainhash
  bytes :: byteslice
  height :: "32 word"

record blockRegion =
  Hash :: chainhash
  Offset :: "32 word"
  Len :: "32 word"

subsection \<open>The ordered maps (package treap) and the snapshot\<close>

text \<open>
  Modelled from the spec: package \<open>database/internal/treap\<close> is not among the sources.
  The spec describes \<open>pendingKeys\<close> as an ordered map of key to value and
  \<open>pendingRemove\<close> as an ordered map of key to unit, sorted lexicographically by key.
  The model is an association list kept in key order, with one entry per key.
\<close>

type_synonym treap = "(byteslice \<times> byteslice) list"

fun bytesLess :: "byteslice \<Rightarrow> byteslice \<Rightarrow> bool" where
  "bytesLess [] [] = False"
| "bytesLess [] (y # ys) = True"
| "bytesLess (x # xs) [] = False"
| "bytesLess (x # xs) (y # ys) = (x < y \<or> (x = y \<and> bytesLess xs ys))"

text \<open>Modelled from the spec: \<open>Has\<close> of the ordered map (package treap), whether the key is present.\<close>

definition treapHas :: "treap \<Rightarrow> byteslice \<Rightarrow> bool" where
  "treapHas t k = (map_of t k \<noteq> None)"

text \<open>Modelled from the spec: \<open>Get\<close> of the ordered map (package treap), nil for an absent key.\<close>

definition treapGet :: "treap \<Rightarrow> byteslice \<Rightarrow> byteslice option" where
  "treapGet t k = map_of t k"

text \<open>Modelled from the spec: \<open>Delete\<close> of the ordered map (package treap).\<close>

definition treapDelete :: "treap \<Rightarrow> byteslice \<Rightarrow> treap" where
  "treapDelete t k = filter (\<lambda>p. fst p \<noteq> k) t"

text \<open>Modelled from the spec: insertion at the key's place in the order of the map (package treap).\<close>

fun treapInsert :: "byteslice \<Rightarrow> byteslice \<Rightarrow> treap \<Rightarrow> treap" where
  "treapInsert k v [] = [(k, v)]"
| "treapInsert k v (p # ps) =
     (if bytesLess k (fst p) then (k, v) # p # ps else p # treapInsert k v ps)"

text \<open>Modelled from the spec: \<open>Put\<close> of the ordered map (package treap); it replaces the value of a present key.\<close>

definition treapPut :: "treap \<Rightarrow> byteslice \<Rightarrow> byteslice \<Rightarrow> treap" where
  "treapPut t k v = treapInsert k v (treapDelete t k)"

definition treapKeys :: "treap \<Rightarrow> byteslice set" where
  "treapKeys t = fst ` set t"

text \<open>
  Modelled from the spec: \<open>dbCacheSnapshot\<close> (dbcache.go) is not among the sources. The
  spec describes a snapshot as an immutable view of the committed key-value state;
  \<open>Has\<close> and \<open>Get\<close> look a key up in it.
\<close>

type_synonym dbCacheSnapshot = treap

text \<open>Modelled from the spec: \<open>Has\<close> of the snapshot (dbcache.go).\<close>

definition snapshotHas :: "dbCacheSnapshot \<Rightarrow> byteslice \<Rightarrow> bool" where
  "snapshotHas s k = treapHas s k"

text \<open>Modelled from the spec: \<open>Get\<close> of the snapshot (dbcache.go), nil for an absent key.\<close>

definition snapshotGet :: "dbCacheSnapshot \<Rightarrow> byteslice \<Rightarrow> byteslice option" where
  "snapshotGet s k = treapGet s k"

text \<open>
  Modelled from the spec: \<open>treap.Iterator\<close> is not among the sources. The spec says that
  a notified iterator re-seeks to its current key on its next movement; the model keeps
  that one flag per registered iterator.
\<close>

record treapIterator =
  reseek :: bool

text \<open>Modelled from the spec: \<open>ForceReseek\<close> of \<open>treap.Iterator\<close>.\<close>

definition ForceReseek :: "treapIterator \<Rightarrow> treapIterator" where
  "ForceReseek it = it\<lparr>reseek := True\<rparr>"

subsection \<open>The transaction\<close>

text \<open>
  The pointer fields \<open>snapshot\<close>, \<open>pendingKeys\<close>, \<open>pendingRemove\<close> and the map
  \<open>pendingBlocks\<close> are \<open>None\<close> when nil. The two mdbx handles are \<open>True\<close> when set.
  \<open>activeIterLock\<close> guards the iterator registry against concurrent callers and is not
  part of the model; the two locks of the database that \<open>close\<close> releases are
  (\<open>dbLocks\<close> below).
\<close>

record transaction =
  managed :: bool
  closed :: bool
  writable :: bool
  snapshot :: "dbCacheSnapshot option"
  pendingBlocks :: "(chainhash \<rightharpoonup> nat) option"
  pendingBlockData :: "pendingBlock list"
  pendingDelFileNums :: "32 word list"
  pendingKeys :: "treap option"
  pendingRemove :: "treap option"
  activeIters :: "treapIterator list"
  mdbRoTx :: bool
  mdbRwTx :: bool

definition notifyActiveIters :: "transaction \<Rightarrow> transaction" where
  "notifyActiveIters tx = tx\<lparr>activeIters := map ForceReseek (activeIters tx)\<rparr>"

definition checkClosed :: "transaction \<Rightarrow> error option" where
  "checkClosed tx = (if closed tx then Some (makeDbErr ErrTxClosed None) else None)"

definition hasKey :: "transaction \<Rightarrow> byteslice \<Rightarrow> bool result" where
  "hasKey tx key =
     (let fromSnapshot =
            (case snapshot tx of None \<Rightarrow> nilDereference | Some s \<Rightarrow> Ok (snapshotHas s key))
      in if writable tx then
           (case pendingRemove tx of
              None \<Rightarrow> nilDereference
            | Some pr \<Rightarrow>
                if treapHas pr key then Ok False
                else (case pendingKeys tx of
                        None \<Rightarrow> nilDereference
                      | Some pk \<Rightarrow> if treapHas pk key then Ok True else fromSnapshot))
         else fromSnapshot)"

definition putKey :: "transaction \<Rightarrow> byteslice \<Rightarrow> byteslice \<Rightarrow> unit result \<times> transaction" where
  "putKey tx key val =
     (case pendingRemove tx of
        None \<Rightarrow> (nilDereference, tx)
      | Some pr \<Rightarrow>
          (let tx1 = tx\<lparr>pendingRemove := Some (treapDelete pr key)\<rparr>
           in case pendingKeys tx1 of
                None \<Rightarrow> (nilDereference, tx1)
              | Some pk \<Rightarrow>
                  (Ok (), notifyActiveIters (tx1\<lparr>pendingKeys := Some (treapPut pk key val)\<rparr>))))"

definition fetchKey :: "transaction \<Rightarrow> byteslice \<Rightarrow> byteslice option result" where
  "fetchKey tx key =
     (let fromSnapshot =
            (case snapshot tx of None \<Rightarrow> nilDereference | Some s \<Rightarrow> Ok (snapshotGet s key))
      in if writable tx then
           (case pendingRemove tx of
              None \<Rightarrow> nilDereference
            | Some pr \<Rightarrow>
                if treapHas pr key then Ok None
                else (case pendingKeys tx of
                        None \<Rightarrow> nilDereference
                      | Some pk \<Rightarrow>
                          (case treapGet pk key of
                             Some v \<Rightarrow> Ok (Some v)
                           | None \<Rightarrow> fromSnapshot)))
         else fromSnapshot)"

definition deleteKey :: "transaction \<Rightarrow> byteslice \<Rightarrow> bool \<Rightarrow> unit result \<times> transaction" where
  "deleteKey tx key notifyIterators =
     (case pendingKeys tx of
        None \<Rightarrow> (nilDereference, tx)
      | Some pk \<Rightarrow>
          (let tx1 = tx\<lparr>pendingKeys := Some (treapDelete pk key)\<rparr>
           in case pendingRemove tx1 of
                None \<Rightarrow> (nilDereference, tx1)
              | Some pr \<Rightarrow>
                  (let tx2 = tx1\<lparr>pendingRemove := Some (treapPut pr key [])\<rparr>
                   in (Ok (), if notifyIterators then notifyActiveIters tx2 else tx2))))"

text \<open>A pending-set mutation, and a sequence of them run in order.\<close>

datatype mutation = PutKey byteslice byteslice | DeleteKey byteslice bool

fun applyMutation :: "transaction \<Rightarrow> mutation \<Rightarrow> transaction" where
  "applyMutation tx (PutKey k v) = snd (putKey tx k v)"
| "applyMutation tx (DeleteKey k n) = snd (deleteKey tx k n)"

definition applyMutations :: "transaction \<Rightarrow> mutation list \<Rightarrow> transaction" where
  "applyMutations tx ms = fold (\<lambda>m t. applyMutation t m) ms tx"

definition pendingDisjoint :: "transaction \<Rightarrow> bool" where
  "pendingDisjoint tx =
     (case (pendingKeys tx, pendingRemove tx) of
        (Some pk, Some pr) \<Rightarrow> list_all (\<lambda>p. \<not> treapHas pr (fst p)) pk
      | _ \<Rightarrow> False)"

subsection \<open>Collaborators of the transaction\<close>

text \<open>
  transaction.go calls into the block file store, the cache, the bucket code and the
  serialization helpers, none of which is among the sources. Each of them is a
  parameter of the model: a field of \<open>env\<close>, over a state \<open>'w\<close> of the block file store
  and the key-value backend that the model never inspects. \<open>scanBlockFiles\<close> reports the
  first and last file number as Go \<open>int\<close> values and the size of the last file.
  \<open>writeBlock\<close> is given the height and the bytes of the block (the source also hands
  it the transaction). \<open>sortFetchList\<close> stands for \<open>sort.Sort\<close> of the Go library.
\<close>

record 'w env =
  blockIdxBucketID :: byteslice
  metadataBucketID :: byteslice
  writeLocKeyName :: byteslice
  maxBlockFileSize :: "32 word"
  deserializeBlockLoc :: "byteslice \<Rightarrow> error + blockLocation"
  serializeBlockLoc :: "blockLocation \<Rightarrow> byteslice"
  serializeWriteRow :: "32 word \<Rightarrow> 32 word \<Rightarrow> byteslice"
  convertErr :: "error \<Rightarrow> error"
  scanBlockFiles :: "'w \<Rightarrow> error + (int \<times> int \<times> 32 word)"
  readBlock :: "'w \<Rightarrow> chainhash \<Rightarrow> blockLocation \<Rightarrow> error + byteslice"
  readBlockRegion :: "'w \<Rightarrow> blockLocation \<Rightarrow> 32 word \<Rightarrow> 32 word \<Rightarrow> error + byteslice"
  deleteFileFunc :: "'w \<Rightarrow> 32 word \<Rightarrow> error option \<times> 'w"
  writeCursor :: "'w \<Rightarrow> 32 word \<times> 32 word"
  writeBlock :: "'w \<Rightarrow> 32 word \<Rightarrow> byteslice \<Rightarrow> (error + blockLocation) \<times> 'w"
  handleRollback :: "'w \<Rightarrow> 32 word \<Rightarrow> 32 word \<Rightarrow> 'w"
  commitTx :: "'w \<Rightarrow> transaction \<Rightarrow> error option \<times> 'w \<times> transaction"
  mdbCommit :: "'w \<Rightarrow> error option \<times> 'w"
  sortFetchList :: "bulkFetchData list \<Rightarrow> bulkFetchData list"

text \<open>
  The three methods of \<open>btcutil.Block\<close> that \<open>StoreBlock\<close> calls, as the values they
  return: \<open>Hash()\<close>, \<open>Bytes()\<close> (which can fail) and \<open>Height()\<close>.
\<close>

record block =
  blockHash :: chainhash
  blockBytes :: "error + byteslice"
  blockHeight :: "32 word"

text \<open>
  Modelled from the spec: \<open>bucketizedKey\<close> and the bucket methods (bucket.go) are not
  among the sources. The spec: keys are physically stored as the bucket id followed by
  the user key; \<open>Get\<close> and \<open>Put\<close> delegate to the transaction's key-level helpers with
  the prefix applied; \<open>Put\<close> requires a writable transaction, otherwise \<open>TxNotWritable\<close>.
  The transaction's \<open>blockIdxBucket\<close> and \<open>metaBucket\<close> are the buckets with the fixed
  ids \<open>blockIdxBucketID\<close> and \<open>metadataBucketID\<close>.
\<close>

text \<open>Modelled from the spec: \<open>bucketizedKey\<close> (bucket.go), the bucket id followed by the key.\<close>

definition bucketizedKey :: "byteslice \<Rightarrow> byteslice \<Rightarrow> byteslice" where
  "bucketizedKey bucketID key = bucketID @ key"

text \<open>Modelled from the spec: \<open>bucket.Get\<close> (bucket.go).\<close>

definition bucketGet :: "transaction \<Rightarrow> byteslice \<Rightarrow> byteslice \<Rightarrow> byteslice option result" where
  "bucketGet tx bucketID key = fetchKey tx (bucketizedKey bucketID key)"

text \<open>Modelled from the spec: \<open>bucket.Put\<close> (bucket.go).\<close>

definition bucketPut ::
  "transaction \<Rightarrow> byteslice \<Rightarrow> byteslice \<Rightarrow> byteslice \<Rightarrow> unit result \<times> transaction" where
  "bucketPut tx bucketID key val =
     (if \<not> writable tx then (Err (makeDbErr ErrTxNotWritable None), tx)
      else putKey tx (bucketizedKey bucketID key) val)"

subsection \<open>Blocks\<close>

definition pendingIndex :: "transaction \<Rightarrow> chainhash \<Rightarrow> nat option" where
  \<comment> \<open>\<open>idx, exists := tx.pendingBlocks[hash]\<close>; reading a nil map finds nothing\<close>
  "pendingIndex tx h = (case pendingBlocks tx of None \<Rightarrow> None | Some m \<Rightarrow> m h)"

definition hasBlock :: "'w env \<Rightarrow> transaction \<Rightarrow> chainhash \<Rightarrow> bool result" where
  "hasBlock env tx h =
     (if pendingIndex tx h \<noteq> None then Ok True
      else hasKey tx (bucketizedKey (blockIdxBucketID env) h))"

definition StoreBlock :: "'w env \<Rightarrow> transaction \<Rightarrow> block \<Rightarrow> unit result \<times> transaction" where
  "StoreBlock env tx blk =
     (case checkClosed tx of
        Some err \<Rightarrow> (Err err, tx)
      | None \<Rightarrow>
          if \<not> writable tx then (Err (makeDbErr ErrTxNotWritable None), tx)
          else
            (case hasBlock env tx (blockHash blk) of
               Panic msg \<Rightarrow> (Panic msg, tx)
             | Err err \<Rightarrow> (Err err, tx)
             | Ok True \<Rightarrow> (Err (makeDbErr ErrBlockExists None), tx)
             | Ok False \<Rightarrow>
                 (case blockBytes blk of
                    Inl err \<Rightarrow> (Err (makeDbErr ErrDriverSpecific (Some err)), tx)
                  | Inr bs \<Rightarrow>
                      (let m = (case pendingBlocks tx of None \<Rightarrow> Map.empty | Some m \<Rightarrow> m);
                           tx1 = tx\<lparr>pendingBlocks :=
                                    Some (m(blockHash blk \<mapsto> length (pendingBlockData tx)))\<rparr>
                       in (Ok (),
                           tx1\<lparr>pendingBlockData := pendingBlockData tx1 @
                                 [\<lparr>hash = blockHash blk, bytes = bs,
                                   height = blockHeight blk\<rparr>]\<rparr>)))))"

definition HasBlock :: "'w env \<Rightarrow> transaction \<Rightarrow> chainhash \<Rightarrow> bool result" where
  "HasBlock env tx h =
     (case checkClosed tx of Some err \<Rightarrow> Err err | None \<Rightarrow> hasBlock env tx h)"

fun hasBlocksLoop :: "'w env \<Rightarrow> transaction \<Rightarrow> chainhash list \<Rightarrow> bool list result" where
  "hasBlocksLoop env tx [] = Ok []"
| "hasBlocksLoop env tx (h # hs) =
     (case hasBlock env tx h of
        Ok b \<Rightarrow> (case hasBlocksLoop env tx hs of Ok bs \<Rightarrow> Ok (b # bs) | r \<Rightarrow> r)
      | Err err \<Rightarrow> Err err
      | Panic msg \<Rightarrow> Panic msg)"

definition HasBlocks :: "'w env \<Rightarrow> transaction \<Rightarrow> chainhash list \<Rightarrow> bool list result" where
  "HasBlocks env tx hashes =
     (case checkClosed tx of Some err \<Rightarrow> Err err | None \<Rightarrow> hasBlocksLoop env tx hashes)"

definition fetchBlockRow :: "'w env \<Rightarrow> transaction \<Rightarrow> chainhash \<Rightarrow> byteslice result" where
  "fetchBlockRow env tx h =
     (case bucketGet tx (blockIdxBucketID env) h of
        Panic msg \<Rightarrow> Panic msg
      | Err err \<Rightarrow> Err err
      | Ok None \<Rightarrow> Err (makeDbErr ErrBlockNotFound None)
      | Ok (Some blockRow) \<Rightarrow> Ok blockRow)"

definition FetchBlock :: "'w env \<Rightarrow> 'w \<Rightarrow> transaction \<Rightarrow> chainhash \<Rightarrow> byteslice result" where
  "FetchBlock env w tx h =
     (case checkClosed tx of
        Some err \<Rightarrow> Err err
      | None \<Rightarrow>
          (case pendingIndex tx h of
             Some idx \<Rightarrow>
               if idx < length (pendingBlockData tx) then Ok (bytes (pendingBlockData tx ! idx))
               else indexOutOfRange
           | None \<Rightarrow>
               (case fetchBlockRow env tx h of
                  Panic msg \<Rightarrow> Panic msg
                | Err err \<Rightarrow> Err err
                | Ok blockRow \<Rightarrow>
                    (case deserializeBlockLoc env blockRow of
                       Inl err \<Rightarrow> Err err
                     | Inr loc \<Rightarrow>
                         (case readBlock env w h loc of
                            Inl err \<Rightarrow> Err err
                          | Inr bs \<Rightarrow> Ok bs)))))"

fun fetchBlocksLoop ::
  "'w env \<Rightarrow> 'w \<Rightarrow> transaction \<Rightarrow> chainhash list \<Rightarrow> byteslice list result" where
  "fetchBlocksLoop env w tx [] = Ok []"
| "fetchBlocksLoop env w tx (h # hs) =
     (case FetchBlock env w tx h of
        Ok b \<Rightarrow> (case fetchBlocksLoop env w tx hs of Ok bs \<Rightarrow> Ok (b # bs) | r \<Rightarrow> r)
      | Err err \<Rightarrow> Err err
      | Panic msg \<Rightarrow> Panic msg)"

definition FetchBlocks ::
  "'w env \<Rightarrow> 'w \<Rightarrow> transaction \<Rightarrow> chainhash list \<Rightarrow> byteslice list result" where
  "FetchBlocks env w tx hashes =
     (case checkClosed tx of Some err \<Rightarrow> Err err | None \<Rightarrow> fetchBlocksLoop env w tx hashes)"

subsection \<open>Block regions\<close>

definition uint32_len :: "byteslice \<Rightarrow> 32 word" where
  \<comment> \<open>\<open>uint32(len(blockBytes))\<close>\<close>
  "uint32_len bs = word_of_nat (length bs)"

definition regionOutOfBounds :: "blockRegion \<Rightarrow> 32 word \<Rightarrow> bool" where
  \<comment> \<open>\<open>endOffset := region.Offset + region.Len; endOffset < region.Offset || endOffset > blockLen\<close>\<close>
  "regionOutOfBounds region blkLen =
     (let endOffset = Offset region + Len region
      in endOffset < Offset region \<or> endOffset > blkLen)"

definition sliceRegion :: "byteslice \<Rightarrow> 32 word \<Rightarrow> 32 word \<Rightarrow> byteslice" where
  \<comment> \<open>\<open>blockBytes[offset:endOffset:endOffset]\<close>, within bounds\<close>
  "sliceRegion bs offset endOffset = take (unat endOffset - unat offset) (drop (unat offset) bs)"

definition fetchPendingRegion :: "transaction \<Rightarrow> blockRegion \<Rightarrow> byteslice option result" where
  "fetchPendingRegion tx region =
     (case pendingIndex tx (Hash region) of
        None \<Rightarrow> Ok None
      | Some idx \<Rightarrow>
          if idx < length (pendingBlockData tx) then
            (let blkBytes = bytes (pendingBlockData tx ! idx);
                 blkLen = uint32_len blkBytes
             in if regionOutOfBounds region blkLen
                then Err (makeDbErr ErrBlockRegionInvalid None)
                else Ok (Some (sliceRegion blkBytes (Offset region)
                                 (Offset region + Len region))))
          else indexOutOfRange)"

definition pendingRegion :: "transaction \<Rightarrow> blockRegion \<Rightarrow> byteslice option result" where
  \<comment> \<open>\<open>if tx.pendingBlocks != nil { regionBytes, err := tx.fetchPendingRegion(region) ... }\<close>\<close>
  "pendingRegion tx region =
     (if pendingBlocks tx \<noteq> None then fetchPendingRegion tx region else Ok None)"

definition FetchBlockRegion ::
  "'w env \<Rightarrow> 'w \<Rightarrow> transaction \<Rightarrow> blockRegion \<Rightarrow> byteslice result" where
  "FetchBlockRegion env w tx region =
     (case checkClosed tx of
        Some err \<Rightarrow> Err err
      | None \<Rightarrow>
          (case pendingRegion tx region of
             Panic msg \<Rightarrow> Panic msg
           | Err err \<Rightarrow> Err err
           | Ok (Some regionBytes) \<Rightarrow> Ok regionBytes
           | Ok None \<Rightarrow>
               (case fetchBlockRow env tx (Hash region) of
                  Panic msg \<Rightarrow> Panic msg
                | Err err \<Rightarrow> Err err
                | Ok blockRow \<Rightarrow>
                    (case deserializeBlockLoc env blockRow of
                       Inl err \<Rightarrow> Err (makeDbErr ErrBlockRegionInvalid (Some err))
                     | Inr loc \<Rightarrow>
                         if regionOutOfBounds region (blockLen loc)
                         then Err (makeDbErr ErrBlockRegionInvalid None)
                         else
                           (case readBlockRegion env w loc (Offset region) (Len region) of
                              Inl err \<Rightarrow> Err err
                            | Inr regionBytes \<Rightarrow> Ok regionBytes)))))"

definition Less :: "bulkFetchData \<Rightarrow> bulkFetchData \<Rightarrow> bool" where
  \<comment> \<open>\<open>bulkFetchDataSorter.Less\<close>, on the two elements \<open>s[i]\<close> and \<open>s[j]\<close>\<close>
  "Less a b =
     (if blockFileNum (location a) < blockFileNum (location b) then True
      else if blockFileNum (location a) > blockFileNum (location b) then False
      else fileOffset (location a) < fileOffset (location b))"

text \<open>
  The body of the first loop of \<open>FetchBlockRegions\<close>, for one region: its bytes when the
  block is pending (\<open>Inl\<close>), else the location of its block after the bounds check
  (\<open>Inr\<close>), else the error that ends the call.
\<close>

definition resolveRegion ::
  "'w env \<Rightarrow> transaction \<Rightarrow> blockRegion \<Rightarrow> (byteslice + blockLocation) result" where
  "resolveRegion env tx region =
     (case pendingRegion tx region of
        Panic msg \<Rightarrow> Panic msg
      | Err err \<Rightarrow> Err err
      | Ok (Some regionBytes) \<Rightarrow> Ok (Inl regionBytes)
      | Ok None \<Rightarrow>
          (case fetchBlockRow env tx (Hash region) of
             Panic msg \<Rightarrow> Panic msg
           | Err err \<Rightarrow> Err err
           | Ok blockRow \<Rightarrow>
               (case deserializeBlockLoc env blockRow of
                  Inl err \<Rightarrow> Err err
                | Inr loc \<Rightarrow>
                    if regionOutOfBounds region (blockLen loc)
                    then Err (makeDbErr ErrBlockRegionInvalid None)
                    else Ok (Inr loc))))"

text \<open>
  The loop itself: \<open>i\<close> is the index of the region at the head of the list,
  \<open>blockRegions\<close> the result array and \<open>fetchList\<close> the disk reads collected so far.
\<close>

fun resolveRegions ::
  "'w env \<Rightarrow> transaction \<Rightarrow> blockRegion list \<Rightarrow> nat \<Rightarrow> byteslice list \<Rightarrow> bulkFetchData list
     \<Rightarrow> (byteslice list \<times> bulkFetchData list) result" where
  "resolveRegions env tx [] i blockRegions fetchList = Ok (blockRegions, fetchList)"
| "resolveRegions env tx (region # rest) i blockRegions fetchList =
     (case resolveRegion env tx region of
        Panic msg \<Rightarrow> Panic msg
      | Err err \<Rightarrow> Err err
      | Ok (Inl regionBytes) \<Rightarrow>
          resolveRegions env tx rest (i + 1) (blockRegions[i := regionBytes]) fetchList
      | Ok (Inr loc) \<Rightarrow>
          resolveRegions env tx rest (i + 1) blockRegions
            (fetchList @ [\<lparr>location = loc, replyIndex = i\<rparr>]))"

text \<open>
  The second loop: the reads of the sorted fetch list, in order. The last component is
  the sequence of \<open>readBlockRegion\<close> calls issued so far, each with its location, offset
  and length.
\<close>

type_synonym regionRead = "blockLocation \<times> 32 word \<times> 32 word"

fun readRegions ::
  "'w env \<Rightarrow> 'w \<Rightarrow> blockRegion list \<Rightarrow> bulkFetchData list \<Rightarrow> byteslice list \<Rightarrow> regionRead list
     \<Rightarrow> byteslice list result \<times> regionRead list" where
  "readRegions env w regions [] blockRegions reads = (Ok blockRegions, reads)"
| "readRegions env w regions (fetchData # rest) blockRegions reads =
     (let ri = replyIndex fetchData
      in if ri < length regions then
           (let region = regions ! ri;
                loc = location fetchData;
                reads1 = reads @ [(loc, Offset region, Len region)]
            in case readBlockRegion env w loc (Offset region) (Len region) of
                 Inl err \<Rightarrow> (Err err, reads1)
               | Inr regionBytes \<Rightarrow>
                   readRegions env w regions rest (blockRegions[ri := regionBytes]) reads1)
         else (indexOutOfRange, reads))"

definition FetchBlockRegions ::
  "'w env \<Rightarrow> 'w \<Rightarrow> transaction \<Rightarrow> blockRegion list \<Rightarrow> byteslice list result \<times> regionRead list" where
  "FetchBlockRegions env w tx regions =
     (case checkClosed tx of
        Some err \<Rightarrow> (Err err, [])
      | None \<Rightarrow>
          (case resolveRegions env tx regions 0 (replicate (length regions) []) [] of
             Panic msg \<Rightarrow> (Panic msg, [])
           | Err err \<Rightarrow> (Err err, [])
           | Ok (blockRegions, fetchList) \<Rightarrow>
               readRegions env w regions (sortFetchList env fetchList) blockRegions []))"

subsection \<open>Close and commit\<close>

text \<open>
  The database behind the transaction: the state of the collaborators and the sequence
  of calls made into them that change it or release a resource.
\<close>

datatype storeCall =
    DeleteFile "32 word"
  | WriteBlock "32 word" byteslice
  | HandleRollback "32 word" "32 word"
  | CommitTx
  | MdbCommit
  | MdbRollback
  | SnapshotRelease

record 'w db =
  store :: 'w
  calls :: "storeCall list"

definition called :: "'w db \<Rightarrow> storeCall \<Rightarrow> 'w \<Rightarrow> 'w db" where
  "called d c w = \<lparr>store = w, calls = calls d @ [c]\<rparr>"

definition closeMdbTxs :: "'w db \<Rightarrow> transaction \<Rightarrow> 'w db \<times> transaction" where
  "closeMdbTxs d tx =
     (let (d1, tx1) = (if mdbRoTx tx then (called d MdbRollback (store d), tx\<lparr>mdbRoTx := False\<rparr>)
                       else (d, tx))
      in if mdbRwTx tx1 then (called d1 MdbRollback (store d1), tx1\<lparr>mdbRwTx := False\<rparr>)
         else (d1, tx1))"

text \<open>
  The two locks of the database that a transaction holds from \<open>Begin\<close> until \<open>close\<close>:
  \<open>closeLock\<close>, a \<open>sync.RWMutex\<close>, by the number of read holds on it, and \<open>writeLock\<close>, a
  \<open>sync.Mutex\<close>, by whether it is locked. \<open>RUnlock\<close> without a read hold and \<open>Unlock\<close> of
  an unlocked mutex are fatal errors of the Go runtime: the process dies there, which
  is neither a return nor a panic.
\<close>

record dbLocks =
  closeLock :: nat
  writeLock :: bool

datatype 'a outcome = Result "'a result" | Fatal string

definition close ::
  "'w db \<Rightarrow> dbLocks \<Rightarrow> transaction \<Rightarrow> unit outcome \<times> 'w db \<times> dbLocks \<times> transaction" where
  "close d l tx =
     (let tx1 = tx\<lparr>closed := True, pendingBlocks := None, pendingBlockData := [],
                   pendingDelFileNums := [], pendingKeys := None, pendingRemove := None\<rparr>;
          (d2, tx2) = closeMdbTxs d tx1;
          (d3, tx3) = (if snapshot tx2 \<noteq> None
                       then (called d2 SnapshotRelease (store d2), tx2\<lparr>snapshot := None\<rparr>)
                       else (d2, tx2))
      in if closeLock l = 0 then (Fatal ''sync: RUnlock of unlocked RWMutex'', d3, l, tx3)
         else
           (let l1 = l\<lparr>closeLock := closeLock l - 1\<rparr>
            in if writable tx3 then
                 (if writeLock l1 then (Result (Ok ()), d3, l1\<lparr>writeLock := False\<rparr>, tx3)
                  else (Fatal ''sync: unlock of unlocked mutex'', d3, l1, tx3))
               else (Result (Ok ()), d3, l1, tx3)))"

fun deletePendingFiles :: "'w env \<Rightarrow> 'w db \<Rightarrow> 32 word list \<Rightarrow> error option \<times> 'w db" where
  "deletePendingFiles env d [] = (None, d)"
| "deletePendingFiles env d (fileNum # rest) =
     (case deleteFileFunc env (store d) fileNum of
        (Some err, w) \<Rightarrow> (Some err, called d (DeleteFile fileNum) w)
      | (None, w) \<Rightarrow> deletePendingFiles env (called d (DeleteFile fileNum) w) rest)"

definition rollback :: "'w env \<Rightarrow> 32 word \<Rightarrow> 32 word \<Rightarrow> 'w db \<Rightarrow> 'w db" where
  \<comment> \<open>the closure \<open>rollback\<close> of \<open>writePendingAndCommit\<close>\<close>
  "rollback env oldBlkFileNum oldBlkOffset d =
     called d (HandleRollback oldBlkFileNum oldBlkOffset)
       (handleRollback env (store d) oldBlkFileNum oldBlkOffset)"

fun writePendingBlocks ::
  "'w env \<Rightarrow> 32 word \<Rightarrow> 32 word \<Rightarrow> 'w db \<Rightarrow> transaction \<Rightarrow> pendingBlock list
     \<Rightarrow> unit result \<times> 'w db \<times> transaction" where
  "writePendingBlocks env oldF oldO d tx [] = (Ok (), d, tx)"
| "writePendingBlocks env oldF oldO d tx (blockData # rest) =
     (case writeBlock env (store d) (height blockData) (bytes blockData) of
        (Inl err, w) \<Rightarrow>
          (Err err,
           rollback env oldF oldO (called d (WriteBlock (height blockData) (bytes blockData)) w),
           tx)
      | (Inr loc, w) \<Rightarrow>
          (let d1 = called d (WriteBlock (height blockData) (bytes blockData)) w;
               blockRow = serializeBlockLoc env loc
           in case bucketPut tx (blockIdxBucketID env) (hash blockData) blockRow of
                (Err err, tx1) \<Rightarrow> (Err err, rollback env oldF oldO d1, tx1)
              | (Panic msg, tx1) \<Rightarrow> (Panic msg, d1, tx1)
              | (Ok u, tx1) \<Rightarrow> writePendingBlocks env oldF oldO d1 tx1 rest))"

definition writePendingAndCommit ::
  "'w env \<Rightarrow> 'w db \<Rightarrow> transaction \<Rightarrow> unit result \<times> 'w db \<times> transaction" where
  "writePendingAndCommit env d tx =
     (case deletePendingFiles env d (pendingDelFileNums tx) of
        (Some err, d1) \<Rightarrow> (Err err, d1, tx)
      | (None, d1) \<Rightarrow>
          (let (oldBlkFileNum, oldBlkOffset) = writeCursor env (store d1)
           in case writePendingBlocks env oldBlkFileNum oldBlkOffset d1 tx (pendingBlockData tx) of
                (Err err, d2, tx2) \<Rightarrow> (Err err, d2, tx2)
              | (Panic msg, d2, tx2) \<Rightarrow> (Panic msg, d2, tx2)
              | (Ok u, d2, tx2) \<Rightarrow>
                  (let (curFileNum, curOffset) = writeCursor env (store d2);
                       writeRow = serializeWriteRow env curFileNum curOffset
                   in case bucketPut tx2 (metadataBucketID env) (writeLocKeyName env) writeRow of
                        (Err err, tx3) \<Rightarrow>
                          (Err (convertErr env err), rollback env oldBlkFileNum oldBlkOffset d2, tx3)
                      | (Panic msg, tx3) \<Rightarrow> (Panic msg, d2, tx3)
                      | (Ok u, tx3) \<Rightarrow>
                          (case commitTx env (store d2) tx3 of
                             (Some err, w, tx4) \<Rightarrow> (Err err, called d2 CommitTx w, tx4)
                           | (None, w, tx4) \<Rightarrow> (Ok (), called d2 CommitTx w, tx4)))))"

text \<open>
  \<open>Commit\<close> runs \<open>close\<close> as a deferred call once the transaction is known to be open:
  whatever the body returns, \<open>close\<close> runs after it.
\<close>

definition Commit ::
  "'w env \<Rightarrow> 'w db \<Rightarrow> dbLocks \<Rightarrow> transaction
     \<Rightarrow> unit outcome \<times> 'w db \<times> dbLocks \<times> transaction" where
  "Commit env d l tx =
     (if managed tx then
        (case close d l tx of
           (Result u, d1, l1, tx1) \<Rightarrow>
             (Result (Panic ''managed transaction commit not allowed''), d1, l1, tx1)
         | (Fatal msg, d1, l1, tx1) \<Rightarrow> (Fatal msg, d1, l1, tx1))
      else
        (case checkClosed tx of
           Some err \<Rightarrow> (Result (Err err), d, l, tx)
         | None \<Rightarrow>
             (let (r, d1, tx1) =
                    (if \<not> writable tx then (Err (makeDbErr ErrTxNotWritable None), d, tx)
                     else
                       (case writePendingAndCommit env d tx of
                          (Ok u, d2, tx2) \<Rightarrow>
                            if mdbRwTx tx2 then
                              (case mdbCommit env (store d2) of
                                 (Some err, w) \<Rightarrow> (Err err, called d2 MdbCommit w, tx2)
                               | (None, w) \<Rightarrow> (Ok (), called d2 MdbCommit w, tx2))
                            else (Ok (), d2, tx2)
                        | (r, d2, tx2) \<Rightarrow> (r, d2, tx2)))
              in case close d1 l tx1 of
                   (Result u, d3, l3, tx3) \<Rightarrow> (Result r, d3, l3, tx3)
                 | (Fatal msg, d3, l3, tx3) \<Rightarrow> (Fatal msg, d3, l3, tx3))))"

definition Rollback ::
  "'w db \<Rightarrow> dbLocks \<Rightarrow> transaction \<Rightarrow> unit outcome \<times> 'w db \<times> dbLocks \<times> transaction" where
  "Rollback d l tx =
     (if managed tx then
        (case close d l tx of
           (Result u, d1, l1, tx1) \<Rightarrow>
             (Result (Panic ''managed transaction rollback not allowed''), d1, l1, tx1)
         | (Fatal msg, d1, l1, tx1) \<Rightarrow> (Fatal msg, d1, l1, tx1))
      else
        (case checkClosed tx of
           Some err \<Rightarrow> (Result (Err err), d, l, tx)
         | None \<Rightarrow>
             (case close d l tx of
                (Result u, d1, l1, tx1) \<Rightarrow> (Result (Ok ()), d1, l1, tx1)
              | (Fatal msg, d1, l1, tx1) \<Rightarrow> (Fatal msg, d1, l1, tx1))))"

subsection \<open>Pruning\<close>

text \<open>
  Modelled from the spec: the cursor (cursor.go) is not among the sources. The spec: a
  cursor is an ordered iterator over a bucket that merges, in sorted key order, the
  snapshot restricted to the bucket's key prefix with \<open>pendingKeys\<close> restricted to the
  same range, \<open>pendingRemove\<close> acting as a hide-filter; \<open>Delete\<close> removes the current key
  via the transaction's pending overlay and advances; after a pending mutation an
  iterator re-seeks to its current key on its next movement. A cursor is modelled by
  the entries from its current one on, keys without the bucket prefix; it is exhausted
  when there is none. Deleting a key hides that key only, so a re-seek finds the
  entries from the current one on as they were.
\<close>

text \<open>Modelled from the spec: the key-value pairs a cursor (cursor.go) can see, in key order.\<close>

definition overlayEntries :: "transaction \<Rightarrow> treap result" where
  "overlayEntries tx =
     (case snapshot tx of
        None \<Rightarrow> nilDereference
      | Some s \<Rightarrow>
          if writable tx then
            (case pendingKeys tx of
               None \<Rightarrow> nilDereference
             | Some pk \<Rightarrow>
                 (case pendingRemove tx of
                    None \<Rightarrow> nilDereference
                  | Some pr \<Rightarrow>
                      Ok (filter (\<lambda>p. \<not> treapHas pr (fst p))
                            (fold (\<lambda>p t. treapPut t (fst p) (snd p)) pk s))))
          else Ok s)"

text \<open>Modelled from the spec: the entries a cursor (cursor.go) over the bucket visits.\<close>

definition cursorEntries :: "transaction \<Rightarrow> byteslice \<Rightarrow> treap result" where
  "cursorEntries tx bucketID =
     (case overlayEntries tx of
        Ok es \<Rightarrow>
          Ok (map (\<lambda>p. (drop (length bucketID) (fst p), snd p))
                (filter (\<lambda>p. take (length bucketID) (fst p) = bucketID) es))
      | r \<Rightarrow> r)"

type_synonym cursor = treap

text \<open>
  Modelled from the spec: \<open>bucket.Cursor\<close> followed by \<open>cursor.First\<close>, the cursor on the
  first entry of the bucket.
\<close>

definition cursorFirst :: "transaction \<Rightarrow> byteslice \<Rightarrow> cursor result" where
  "cursorFirst tx bucketID = cursorEntries tx bucketID"

text \<open>
  Modelled from the spec: \<open>cursor.Next\<close>, the cursor moved to the following entry. \<open>First\<close>
  and \<open>Next\<close> answer whether the cursor is on an entry, which the loop of \<open>PruneBlocks\<close>
  reads off the list.
\<close>

definition cursorNext :: "cursor \<Rightarrow> cursor" where
  "cursorNext c = tl c"

text \<open>
  Modelled from the spec: \<open>cursor.Delete\<close> on a cursor at \<open>entry\<close> with \<open>rest\<close> after it:
  the key of the current entry is deleted through \<open>deleteKey\<close> and the cursor advances
  to the entry after it.
\<close>

definition cursorDelete ::
  "transaction \<Rightarrow> byteslice \<Rightarrow> byteslice \<times> byteslice \<Rightarrow> cursor
     \<Rightarrow> (unit result \<times> transaction) \<times> cursor" where
  "cursorDelete tx bucketID entry rest =
     (deleteKey tx (bucketizedKey bucketID (fst entry)) True, rest)"

definition hashOfKey :: "byteslice \<Rightarrow> chainhash result" where
  \<comment> \<open>\<open>*(*chainhash.Hash)(cursor.Key())\<close>: the conversion panics on fewer than 32 bytes\<close>
  "hashOfKey key =
     (if length key < 32
      then Panic ''cannot convert slice to array pointer: length less than 32''
      else Ok (take 32 key))"

text \<open>
  The loop over the file numbers of \<open>PruneBlocks\<close>, from \<open>i\<close> on. It carries
  \<open>tx.pendingDelFileNums\<close>, the map \<open>deletedFiles\<close> and \<open>totalSize\<close>.
\<close>

function pruneFiles ::
  "32 word \<Rightarrow> 32 word \<Rightarrow> 64 word \<Rightarrow> 64 word \<Rightarrow> 32 word list \<Rightarrow> 32 word set \<Rightarrow> 64 word
     \<Rightarrow> 32 word list \<times> 32 word set \<times> 64 word" where
  "pruneFiles i lastNum maxSize targetSize delFileNums deletedFiles totalSize =
     (if i < lastNum then
        (let delFileNums1 = delFileNums @ [i];
             deletedFiles1 = insert i deletedFiles;
             totalSize1 = totalSize - maxSize
         in if totalSize1 \<le> targetSize then (delFileNums1, deletedFiles1, totalSize1)
            else pruneFiles (i + 1) lastNum maxSize targetSize delFileNums1 deletedFiles1
                   totalSize1)
      else (delFileNums, deletedFiles, totalSize))"
  by pat_completeness auto
termination
proof (relation "measure (\<lambda>(i, lastNum, _). unat lastNum - unat i)")
  show "wf (measure (\<lambda>(i, lastNum, _). unat lastNum - unat i))"
    by simp
next
  fix i lastNum :: "32 word" and maxSize targetSize totalSize :: "64 word"
    and delFileNums :: "32 word list" and deletedFiles :: "32 word set"
    and x xa xb
  assume lt: "i < lastNum"
  have b: "unat i < unat lastNum"
    using lt by (simp add: word_less_nat_alt)
  have "unat lastNum < 2 ^ 32"
    using unsigned_less [of lastNum, where 'a = nat] by simp
  then have "unat (i + 1) = Suc (unat i)"
    using b by (simp add: unat_word_ariths)
  then show
    "((i + 1, lastNum, maxSize, targetSize, x, xa, xb),
      (i, lastNum, maxSize, targetSize, delFileNums, deletedFiles, totalSize))
       \<in> measure (\<lambda>(i, lastNum, _). unat lastNum - unat i)"
    using b by simp
qed

declare pruneFiles.simps [simp del]

text \<open>
  The loop over the block index,
  \<open>for ok := cursor.First(); ok; ok = cursor.Next()\<close>, from a cursor that is on an entry
  or exhausted: after the body, \<open>Next\<close> moves the cursor on from where the body left it.
\<close>

function pruneIndex ::
  "'w env \<Rightarrow> 32 word set \<Rightarrow> cursor \<Rightarrow> transaction \<Rightarrow> chainhash list
     \<Rightarrow> chainhash list result \<times> transaction" where
  "pruneIndex env deletedFiles [] tx deletedBlockHashes = (Ok deletedBlockHashes, tx)"
| "pruneIndex env deletedFiles (entry # rest) tx deletedBlockHashes =
     (case deserializeBlockLoc env (snd entry) of
        Inl err \<Rightarrow> (Err err, tx)
      | Inr loc \<Rightarrow>
          if blockFileNum loc \<in> deletedFiles then
            (case hashOfKey (fst entry) of
               Panic msg \<Rightarrow> (Panic msg, tx)
             | Err err \<Rightarrow> (Err err, tx)
             | Ok h \<Rightarrow>
                 (case cursorDelete tx (blockIdxBucketID env) entry rest of
                    ((Err err, tx1), c1) \<Rightarrow> (Err err, tx1)
                  | ((Panic msg, tx1), c1) \<Rightarrow> (Panic msg, tx1)
                  | ((Ok u, tx1), c1) \<Rightarrow>
                      pruneIndex env deletedFiles (cursorNext c1) tx1
                        (deletedBlockHashes @ [h])))
          else pruneIndex env deletedFiles (cursorNext (entry # rest)) tx deletedBlockHashes)"
  by pat_completeness auto
termination
  by (relation "measure (\<lambda>(env, deletedFiles, c, tx, hs). length c)")
     (auto simp: cursorNext_def cursorDelete_def)

definition PruneBlocks ::
  "'w env \<Rightarrow> 'w \<Rightarrow> transaction \<Rightarrow> 64 word \<Rightarrow> chainhash list result \<times> transaction" where
  "PruneBlocks env w tx targetSize =
     (case checkClosed tx of
        Some err \<Rightarrow> (Err err, tx)
      | None \<Rightarrow>
          if \<not> writable tx then (Err (makeDbErr ErrTxNotWritable None), tx)
          else
            (let maxSize = (ucast (maxBlockFileSize env) :: 64 word)
             in if targetSize < maxSize then (Err FmtError, tx)
                else
                  (case scanBlockFiles env w of
                     Inl err \<Rightarrow> (Err err, tx)
                   | Inr (first, lastNum, lastFileSize) \<Rightarrow>
                       if first = lastNum then (Ok [], tx)
                       else
                         (let maxSizeFileCount = lastNum - first;
                              totalSize = ucast lastFileSize
                                          + maxSize * (word_of_int maxSizeFileCount :: 64 word)
                          in if totalSize \<le> targetSize then (Ok [], tx)
                             else
                               (let (delFileNums, deletedFiles, totalSize1) =
                                      pruneFiles (word_of_int first) (word_of_int lastNum)
                                        maxSize targetSize (pendingDelFileNums tx) {} totalSize;
                                    tx1 = tx\<lparr>pendingDelFileNums := delFileNums\<rparr>
                                in case cursorFirst tx1 (blockIdxBucketID env) of
                                     Panic msg \<Rightarrow> (Panic msg, tx1)
                                   | Err err \<Rightarrow> (Err err, tx1)
                                   | Ok c \<Rightarrow> pruneIndex env deletedFiles c tx1 [])))))"

definition BeenPruned :: "'w env \<Rightarrow> 'w \<Rightarrow> transaction \<Rightarrow> bool result" where
  "BeenPruned env w tx =
     (case scanBlockFiles env w of
        Inl err \<Rightarrow> Err err
      | Inr (first, lastNum, lastFileSize) \<Rightarrow> Ok (first \<noteq> 0 \<and> first \<noteq> lastNum))"

subsection \<open>Disk reads of a bulk fetch\<close>

text \<open>
  What \<open>sort.Sort\<close> does with \<open>bulkFetchDataSorter\<close>: it permutes the slice so that no
  element is \<open>Less\<close> than an element before it. The order of elements that compare equal
  is not fixed.
\<close>

definition sortsByLess :: "(bulkFetchData list \<Rightarrow> bulkFetchData list) \<Rightarrow> bool" where
  "sortsByLess f =
     (\<forall>xs. mset (f xs) = mset xs \<and> sorted_wrt (\<lambda>a b. \<not> Less b a) (f xs))"

definition readsAscending :: "regionRead list \<Rightarrow> bool" where
  \<comment> \<open>no read comes after a read of a higher file number, or of the same file at a
      higher file offset\<close>
  "readsAscending reads =
     sorted_wrt
       (\<lambda>a b. unat (blockFileNum (fst a)) < unat (blockFileNum (fst b))
              \<or> (unat (blockFileNum (fst a)) = unat (blockFileNum (fst b))
                  \<and> unat (fileOffset (fst a)) \<le> unat (fileOffset (fst b))))
       reads"

definition diskReadOf :: "'w env \<Rightarrow> transaction \<Rightarrow> blockRegion \<Rightarrow> regionRead list" where
  \<comment> \<open>the disk read that a region needs: none when its block is pending\<close>
  "diskReadOf env tx region =
     (case resolveRegion env tx region of
        Ok (Inr loc) \<Rightarrow> [(loc, Offset region, Len region)]
      | _ \<Rightarrow> [])"

definition diskReads :: "'w env \<Rightarrow> transaction \<Rightarrow> blockRegion list \<Rightarrow> regionRead list" where
  "diskReads env tx regions = concat (map (diskReadOf env tx) regions)"

text \<open>
  The fetch list and the result array after the first loop, as functions of the regions:
  \<open>fetchListOf\<close> lists the regions to read from disk with their reply indices,
  \<open>fillPending\<close> fills in the bytes of the pending ones, and \<open>readOf\<close> is the read
  issued for an element of the fetch list.
\<close>

fun fetchListOf :: "'w env \<Rightarrow> transaction \<Rightarrow> blockRegion list \<Rightarrow> nat \<Rightarrow> bulkFetchData list" where
  "fetchListOf env tx [] i = []"
| "fetchListOf env tx (region # rest) i =
     (case resolveRegion env tx region of
        Ok (Inr loc) \<Rightarrow> \<lparr>location = loc, replyIndex = i\<rparr> # fetchListOf env tx rest (i + 1)
      | _ \<Rightarrow> fetchListOf env tx rest (i + 1))"

definition readOf :: "blockRegion list \<Rightarrow> bulkFetchData \<Rightarrow> regionRead" where
  "readOf regions =
     (\<lambda>fd. (location fd, Offset (regions ! replyIndex fd), Len (regions ! replyIndex fd)))"

fun fillPending ::
  "'w env \<Rightarrow> transaction \<Rightarrow> blockRegion list \<Rightarrow> nat \<Rightarrow> byteslice list \<Rightarrow> byteslice list" where
  "fillPending env tx [] i brs = brs"
| "fillPending env tx (region # rest) i brs =
     (case resolveRegion env tx region of
        Ok (Inl b) \<Rightarrow> fillPending env tx rest (i + 1) (brs[i := b])
      | _ \<Rightarrow> fillPending env tx rest (i + 1) brs)"

definition readResultOf ::
  "'w env \<Rightarrow> 'w \<Rightarrow> blockRegion list \<Rightarrow> bulkFetchData \<Rightarrow> error + byteslice" where
  \<comment> \<open>what \<open>readBlockRegion\<close> answers to the read of an element of the fetch list\<close>
  "readResultOf env w regions fd =
     readBlockRegion env w (location fd) (Offset (regions ! replyIndex fd))
       (Len (regions ! replyIndex fd))"

text \<open>An insertion sort by \<open>Less\<close>, for the concrete inputs.\<close>

fun insertFetch :: "bulkFetchData \<Rightarrow> bulkFetchData list \<Rightarrow> bulkFetchData list" where
  "insertFetch x [] = [x]"
| "insertFetch x (y # ys) = (if Less y x then y # insertFetch x ys else x # y # ys)"

definition insertionSortFetch :: "bulkFetchData list \<Rightarrow> bulkFetchData list" where
  "insertionSortFetch xs = foldr insertFetch xs []"

subsection \<open>The region bound in the words of the specification\<close>



subsection \<open>Pruning in the words of the specification\<close>

text \<open>
  \<open>fileRun i n\<close> is the run of \<open>n\<close> consecutive file numbers \<open>i, i + 1, ...\<close>.
  \<open>totalBlockFileSize\<close> is the size the specification computes before pruning: the size
  of the last file plus \<open>maxBlockFileSize\<close> for every other file, in 64-bit arithmetic.
  \<open>deletedHashes\<close> are the keys of the block-index entries whose location lies in one of
  the given files: the entries that pruning those files has to delete.
\<close>

fun fileRun :: "32 word \<Rightarrow> nat \<Rightarrow> 32 word list" where
  "fileRun i 0 = []"
| "fileRun i (Suc n) = i # fileRun (i + 1) n"

definition totalBlockFileSize :: "'w env \<Rightarrow> int \<Rightarrow> int \<Rightarrow> 32 word \<Rightarrow> 64 word" where
  "totalBlockFileSize env first lastNum lastFileSize =
     ucast lastFileSize + ucast (maxBlockFileSize env) * word_of_int (lastNum - first)"



section \<open>Concrete inputs\<close>

text \<open>
  An open writable transaction as \<open>Begin\<close> hands it out: empty pending sets, a snapshot
  holding one committed key.
\<close>

definition exampleTx :: transaction where
  "exampleTx = \<lparr>managed = False, closed = False, writable = True,
     snapshot = Some [([1], [7])],
     pendingBlocks = None, pendingBlockData = [], pendingDelFileNums = [],
     pendingKeys = Some [], pendingRemove = Some [], activeIters = [],
     mdbRoTx = False, mdbRwTx = True\<rparr>"

text \<open>
  Collaborators for the concrete inputs: a block location is serialized as three bytes,
  the store state is the write offset, no call fails, and a region read answers with
  the file number, file offset, region offset and region length it was asked for.
\<close>

definition exampleDeserialize :: "byteslice \<Rightarrow> error + blockLocation" where
  "exampleDeserialize row =
     (case row of
        [f, off, n] \<Rightarrow> Inr \<lparr>blockFileNum = ucast f, fileOffset = ucast off, blockLen = ucast n\<rparr>
      | _ \<Rightarrow> Inl (OtherError 1))"

definition exampleEnv :: "nat env" where
  "exampleEnv = \<lparr>blockIdxBucketID = [0, 0, 0, 1], metadataBucketID = [0, 0, 0, 0],
     writeLocKeyName = [9],
     maxBlockFileSize = 100,
     deserializeBlockLoc = exampleDeserialize,
     serializeBlockLoc = (\<lambda>loc. [ucast (blockFileNum loc), ucast (fileOffset loc), ucast (blockLen loc)]),
     serializeWriteRow = (\<lambda>f off. [ucast f, ucast off]),
     convertErr = (\<lambda>e. DbError ErrDriverSpecific (Some e)),
     scanBlockFiles = (\<lambda>w. Inr (0, 4, 100)),
     readBlock = (\<lambda>w h loc. Inr (replicate (unat (blockLen loc)) 0)),
     readBlockRegion = (\<lambda>w loc off n.
        Inr [ucast (blockFileNum loc), ucast (fileOffset loc), ucast off, ucast n]),
     deleteFileFunc = (\<lambda>w n. (None, w)),
     writeCursor = (\<lambda>w. (0, word_of_nat w)),
     writeBlock = (\<lambda>w h bs. (Inr \<lparr>blockFileNum = 0, fileOffset = word_of_nat w,
                                   blockLen = word_of_nat (length bs)\<rparr>, w + length bs)),
     handleRollback = (\<lambda>w f off. unat off),
     commitTx = (\<lambda>w tx. (None, w, tx)),
     mdbCommit = (\<lambda>w. (None, w)),
     sortFetchList = insertionSortFetch\<rparr>"

definition exampleBlock :: block where
  "exampleBlock = \<lparr>blockHash = [5], blockBytes = Inr [1, 2, 3], blockHeight = 1\<rparr>"

definition exampleDb :: "nat db" where
  "exampleDb = \<lparr>store = 0, calls = []\<rparr>"


definition noLocks :: dbLocks where
  "noLocks = \<lparr>closeLock = 0, writeLock = False\<rparr>"

text \<open>A transaction after \<open>close\<close>.\<close>

definition closedTx :: transaction where
  "closedTx = \<lparr>managed = False, closed = True, writable = True, snapshot = None,
     pendingBlocks = None, pendingBlockData = [], pendingDelFileNums = [],
     pendingKeys = None, pendingRemove = None, activeIters = [],
     mdbRoTx = False, mdbRwTx = False\<rparr>"

text \<open>
  Transactions with one pending block, with one block in the committed index, and with
  an index entry that does not deserialize.
\<close>

definition pendingTx :: transaction where
  "pendingTx = exampleTx\<lparr>pendingBlocks := Some [[5] \<mapsto> 0],
     pendingBlockData := [\<lparr>hash = [5], bytes = [1, 2, 3], height = 1\<rparr>]\<rparr>"



text \<open>
  A transaction with one pending block and one file to delete; collaborators whose
  \<open>commitTx\<close> fails, and collaborators whose \<open>writeBlock\<close> fails.
\<close>

definition cacheFailEnv :: "nat env" where
  "cacheFailEnv = exampleEnv\<lparr>commitTx := (\<lambda>w tx. (Some (OtherError 7), w, tx))\<rparr>"

definition writeFailEnv :: "nat env" where
  "writeFailEnv = exampleEnv\<lparr>writeBlock := (\<lambda>w h bs. (Inl (OtherError 8), w + 1))\<rparr>"

definition pruningPendingTx :: transaction where
  "pruningPendingTx = pendingTx\<lparr>pendingDelFileNums := [0]\<rparr>"

text \<open>
  Scenario S6 of the specification, with one pending block among the regions: the blocks
  1, 2, 3 and 4 are at (file 2, offset 100), (0, 50), (2, 10) and (1, 0), block 5 is
  pending.
\<close>

definition bulkTx :: transaction where
  "bulkTx = pendingTx\<lparr>snapshot := Some
     [([0, 0, 0, 1, 1], [2, 100, 10]), ([0, 0, 0, 1, 2], [0, 50, 10]),
      ([0, 0, 0, 1, 3], [2, 10, 10]), ([0, 0, 0, 1, 4], [1, 0, 10])]\<rparr>"

definition bulkRegions :: "blockRegion list" where
  "bulkRegions =
     [\<lparr>Hash = [1], Offset = 0, Len = 2\<rparr>, \<lparr>Hash = [2], Offset = 0, Len = 2\<rparr>,
      \<lparr>Hash = [5], Offset = 1, Len = 2\<rparr>, \<lparr>Hash = [3], Offset = 0, Len = 2\<rparr>,
      \<lparr>Hash = [4], Offset = 0, Len = 2\<rparr>]"

text \<open>Collaborators whose reads of block file 2 fail.\<close>

definition readFailEnv :: "nat env" where
  "readFailEnv = exampleEnv\<lparr>readBlockRegion := (\<lambda>w loc off n.
     if blockFileNum loc = 2 then Inl (OtherError 9)
     else Inr [ucast (blockFileNum loc), ucast (fileOffset loc), ucast off, ucast n])\<rparr>"



section \<open>Properties of the ordered map\<close>

lemma treapKeys_Delete: "treapKeys (treapDelete t k) = treapKeys t - {k}"
  by (auto simp: treapKeys_def treapDelete_def)

lemma treapKeys_Insert: "treapKeys (treapInsert k v t) = insert k (treapKeys t)"
  by (induction t) (auto simp: treapKeys_def)

lemma treapKeys_Put: "treapKeys (treapPut t k v) = insert k (treapKeys t)"
  by (auto simp: treapPut_def treapKeys_Insert treapKeys_Delete)

lemma treapHas_keys: "treapHas t k \<longleftrightarrow> k \<in> treapKeys t"
  by (simp add: treapHas_def treapKeys_def map_of_eq_None_iff)

lemma map_of_treapInsert_fresh:
  "k \<notin> fst ` set t \<Longrightarrow> map_of (treapInsert k v t) k = Some v"
  by (induction t) auto

lemma treapGet_Put_same: "treapGet (treapPut t k v) k = Some v"
  unfolding treapGet_def treapPut_def
  by (rule map_of_treapInsert_fresh) (auto simp: treapDelete_def)

lemma treapHas_Put_same: "treapHas (treapPut t k v) k"
  by (simp add: treapHas_keys treapKeys_Put)

lemma treapHas_Delete_same: "\<not> treapHas (treapDelete t k) k"
  by (simp add: treapHas_keys treapKeys_Delete)

section \<open>The pending key sets\<close>

lemma putKey_pending:
  "pendingKeys tx = Some pk \<Longrightarrow> pendingRemove tx = Some pr \<Longrightarrow>
   putKey tx k v = (Ok (), notifyActiveIters (tx\<lparr>pendingRemove := Some (treapDelete pr k),
                                                pendingKeys := Some (treapPut pk k v)\<rparr>))"
  by (simp add: putKey_def)

lemma deleteKey_pending:
  "pendingKeys tx = Some pk \<Longrightarrow> pendingRemove tx = Some pr \<Longrightarrow>
   deleteKey tx k n = (Ok (), let tx2 = tx\<lparr>pendingKeys := Some (treapDelete pk k),
                                 pendingRemove := Some (treapPut pr k [])\<rparr>
                        in if n then notifyActiveIters tx2 else tx2)"
  by (simp add: deleteKey_def Let_def)

text \<open>
  Claim C6. In a writable transaction whose pending sets are allocated, for every key
  \<open>k\<close> and value \<open>v\<close>: after \<open>putKey k v\<close> and then \<open>deleteKey k\<close>, \<open>fetchKey k\<close> is nil
  and \<open>hasKey k\<close> is false; after \<open>deleteKey k\<close> and then \<open>putKey k v\<close>, \<open>fetchKey k\<close>
  is \<open>v\<close>. Nothing is assumed about the snapshot, so the result does not depend on
  whether \<open>k\<close> is committed there.
\<close>

theorem C6_put_delete_and_delete_put:
  assumes "writable tx" and "pendingKeys tx = Some pk" and "pendingRemove tx = Some pr"
  shows "fetchKey (snd (deleteKey (snd (putKey tx k v)) k n)) k = Ok None
       \<and> hasKey (snd (deleteKey (snd (putKey tx k v)) k n)) k = Ok False
       \<and> fetchKey (snd (putKey (snd (deleteKey tx k n)) k v)) k = Ok (Some v)"
  using assms
  by (simp add: putKey_pending deleteKey_pending notifyActiveIters_def Let_def
      fetchKey_def hasKey_def treapHas_Put_same treapHas_Delete_same treapGet_Put_same)

theorem C6_witness:
  "writable exampleTx \<and> pendingKeys exampleTx = Some [] \<and> pendingRemove exampleTx = Some []
     \<and> fetchKey (snd (deleteKey (snd (putKey exampleTx [1] [2])) [1] True)) [1] = Ok None
     \<and> hasKey (snd (deleteKey (snd (putKey exampleTx [1] [2])) [1] True)) [1] = Ok False
     \<and> fetchKey (snd (putKey (snd (deleteKey exampleTx [1] True)) [1] [2])) [1] = Ok (Some [2])"
proof -
  have w: "writable exampleTx" and pk: "pendingKeys exampleTx = Some []"
    and pr: "pendingRemove exampleTx = Some []"
    by (simp_all add: exampleTx_def)
  show ?thesis
    using C6_put_delete_and_delete_put [OF w pk pr, of "[1]" "[2]" True] w pk pr
    by simp
qed

lemma pendingDisjoint_iff:
  "pendingDisjoint tx \<longleftrightarrow>
     (\<exists>pk pr. pendingKeys tx = Some pk \<and> pendingRemove tx = Some pr
        \<and> treapKeys pk \<inter> treapKeys pr = {})"
  by (auto simp: pendingDisjoint_def list_all_iff treapHas_keys treapKeys_def
      split: option.splits)

lemma applyMutation_disjoint:
  "pendingDisjoint tx \<Longrightarrow> pendingDisjoint (applyMutation tx m)"
  unfolding pendingDisjoint_iff
  by (cases m)
     (auto simp: putKey_def deleteKey_def notifyActiveIters_def Let_def
        treapKeys_Put treapKeys_Delete)

lemma applyMutations_disjoint:
  "pendingDisjoint tx \<Longrightarrow> pendingDisjoint (applyMutations tx ms)"
  unfolding applyMutations_def
  by (induction ms arbitrary: tx) (auto intro: applyMutation_disjoint)

text \<open>
  Claim C7. Starting from empty pending sets, after every sequence of \<open>putKey\<close> and
  \<open>deleteKey\<close> calls no key is in both \<open>pendingKeys\<close> and \<open>pendingRemove\<close>
  (\<open>pendingDisjoint\<close>). A further \<open>putKey k v\<close> leaves \<open>k\<close> in \<open>pendingKeys\<close> and out of
  \<open>pendingRemove\<close>; a further \<open>deleteKey k\<close> leaves \<open>k\<close> in \<open>pendingRemove\<close> and out of
  \<open>pendingKeys\<close>.
\<close>

theorem C7_pending_sets_disjoint:
  assumes "pendingKeys tx = Some []" and "pendingRemove tx = Some []"
  shows "pendingDisjoint (applyMutations tx ms)
       \<and> (\<exists>pk pr. pendingKeys (snd (putKey (applyMutations tx ms) k v)) = Some pk
             \<and> pendingRemove (snd (putKey (applyMutations tx ms) k v)) = Some pr
             \<and> treapHas pk k \<and> \<not> treapHas pr k)
       \<and> (\<exists>pk pr. pendingKeys (snd (deleteKey (applyMutations tx ms) k n)) = Some pk
             \<and> pendingRemove (snd (deleteKey (applyMutations tx ms) k n)) = Some pr
             \<and> \<not> treapHas pk k \<and> treapHas pr k)"
proof -
  have "pendingDisjoint tx"
    using assms by (simp add: pendingDisjoint_def)
  then have d: "pendingDisjoint (applyMutations tx ms)"
    by (rule applyMutations_disjoint)
  then obtain pk pr where p: "pendingKeys (applyMutations tx ms) = Some pk"
      "pendingRemove (applyMutations tx ms) = Some pr"
    by (auto simp: pendingDisjoint_iff)
  show ?thesis
    using d p
    by (simp add: putKey_pending deleteKey_pending notifyActiveIters_def Let_def
        treapHas_Put_same treapHas_Delete_same)
qed

theorem C7_witness:
  "pendingKeys exampleTx = Some [] \<and> pendingRemove exampleTx = Some []
     \<and> pendingDisjoint (applyMutations exampleTx
          [PutKey [1] [2], DeleteKey [1] True, PutKey [3] [], DeleteKey [4] False, PutKey [4] [9]])"
proof -
  have pk: "pendingKeys exampleTx = Some []" and pr: "pendingRemove exampleTx = Some []"
    by (simp_all add: exampleTx_def)
  show ?thesis
    using C7_pending_sets_disjoint [OF pk pr,
        of "[PutKey [1] [2], DeleteKey [1] True, PutKey [3] [], DeleteKey [4] False, PutKey [4] [9]]"]
      pk pr
    by simp
qed

section \<open>StoreBlock\<close>

text \<open>
  Claim C8. \<open>StoreBlock\<close> returns \<open>TxClosed\<close> on a closed transaction and
  \<open>TxNotWritable\<close> on an open read-only one. On an open writable transaction it returns
  \<open>BlockExists\<close> when the block's hash is in \<open>pendingBlocks\<close> or has an entry in the
  block-index bucket as \<open>hasKey\<close> sees it through the pending key overlay, and
  \<open>DriverSpecific\<close> when the block is new and its serialization fails. On success the
  transaction changes in \<open>pendingBlocks\<close> and \<open>pendingBlockData\<close> only: the block is
  appended and its index recorded. \<open>StoreBlock\<close> has no access to the block files.
\<close>

theorem C8_StoreBlock:
  "(closed tx \<longrightarrow> StoreBlock env tx blk = (Err (DbError ErrTxClosed None), tx))
   \<and> (\<not> closed tx \<and> \<not> writable tx \<longrightarrow>
        StoreBlock env tx blk = (Err (DbError ErrTxNotWritable None), tx))
   \<and> (\<not> closed tx \<and> writable tx
        \<and> (pendingIndex tx (blockHash blk) \<noteq> None
           \<or> hasKey tx (bucketizedKey (blockIdxBucketID env) (blockHash blk)) = Ok True) \<longrightarrow>
        StoreBlock env tx blk = (Err (DbError ErrBlockExists None), tx))
   \<and> (\<not> closed tx \<and> writable tx \<and> hasBlock env tx (blockHash blk) = Ok False
        \<and> blockBytes blk = Inl e \<longrightarrow>
        StoreBlock env tx blk = (Err (DbError ErrDriverSpecific (Some e)), tx))
   \<and> (\<not> closed tx \<and> writable tx \<and> hasBlock env tx (blockHash blk) = Ok False
        \<and> blockBytes blk = Inr bs \<longrightarrow>
        StoreBlock env tx blk =
          (Ok (),
           tx\<lparr>pendingBlocks :=
                 Some ((case pendingBlocks tx of None \<Rightarrow> Map.empty | Some m \<Rightarrow> m)
                         (blockHash blk \<mapsto> length (pendingBlockData tx))),
               pendingBlockData := pendingBlockData tx @
                 [\<lparr>hash = blockHash blk, bytes = bs, height = blockHeight blk\<rparr>]\<rparr>))"
  by (auto simp: StoreBlock_def checkClosed_def makeDbErr_def hasBlock_def Let_def)

theorem C8_witness:
  "StoreBlock exampleEnv (exampleTx\<lparr>closed := True\<rparr>) exampleBlock
     = (Err (DbError ErrTxClosed None), exampleTx\<lparr>closed := True\<rparr>)
   \<and> StoreBlock exampleEnv (exampleTx\<lparr>writable := False\<rparr>) exampleBlock
     = (Err (DbError ErrTxNotWritable None), exampleTx\<lparr>writable := False\<rparr>)
   \<and> StoreBlock exampleEnv (exampleTx\<lparr>snapshot := Some [([0, 0, 0, 1, 5], [0, 0, 3])]\<rparr>) exampleBlock
     = (Err (DbError ErrBlockExists None), exampleTx\<lparr>snapshot := Some [([0, 0, 0, 1, 5], [0, 0, 3])]\<rparr>)
   \<and> StoreBlock exampleEnv exampleTx (exampleBlock\<lparr>blockBytes := Inl (OtherError 3)\<rparr>)
     = (Err (DbError ErrDriverSpecific (Some (OtherError 3))), exampleTx)
   \<and> StoreBlock exampleEnv exampleTx exampleBlock
     = (Ok (), exampleTx\<lparr>pendingBlocks := Some [[5] \<mapsto> 0],
                         pendingBlockData := [\<lparr>hash = [5], bytes = [1, 2, 3], height = 1\<rparr>]\<rparr>)"
  using C8_StoreBlock [where tx = "exampleTx\<lparr>closed := True\<rparr>" and env = exampleEnv
        and blk = exampleBlock]
    C8_StoreBlock [where tx = "exampleTx\<lparr>writable := False\<rparr>" and env = exampleEnv
        and blk = exampleBlock]
    C8_StoreBlock [where tx = "exampleTx\<lparr>snapshot := Some [([0, 0, 0, 1, 5], [0, 0, 3])]\<rparr>"
        and env = exampleEnv and blk = exampleBlock]
    C8_StoreBlock [where tx = exampleTx and env = exampleEnv
        and blk = "exampleBlock\<lparr>blockBytes := Inl (OtherError 3)\<rparr>" and e = "OtherError 3"]
    C8_StoreBlock [where tx = exampleTx and env = exampleEnv and blk = exampleBlock
        and bs = "[1, 2, 3]"]
  by (simp add: exampleTx_def exampleEnv_def exampleBlock_def hasBlock_def hasKey_def
      pendingIndex_def bucketizedKey_def treapHas_def snapshotHas_def)


text \<open>
  Claim C10. Whenever \<open>StoreBlock\<close> returns an error, the transaction is exactly as it
  was before the call.
\<close>

theorem C10_StoreBlock_error_no_effect:
  "StoreBlock env tx blk = (Err e, tx') \<Longrightarrow> tx' = tx"
  by (auto simp: StoreBlock_def Let_def split: option.splits if_splits result.splits sum.splits bool.splits)


theorem C10_witness:
  "StoreBlock exampleEnv (exampleTx\<lparr>closed := True\<rparr>) exampleBlock
     = (Err (DbError ErrTxClosed None), exampleTx\<lparr>closed := True\<rparr>)
   \<and> StoreBlock exampleEnv exampleTx (exampleBlock\<lparr>blockBytes := Inl (OtherError 3)\<rparr>)
     = (Err (DbError ErrDriverSpecific (Some (OtherError 3))), exampleTx)"
proof -
  let ?c = "exampleTx\<lparr>closed := True\<rparr>"
  let ?b = "exampleBlock\<lparr>blockBytes := Inl (OtherError 3)\<rparr>"
  have 1: "StoreBlock exampleEnv ?c exampleBlock
             = (Err (DbError ErrTxClosed None), snd (StoreBlock exampleEnv ?c exampleBlock))"
    by (simp add: StoreBlock_def checkClosed_def makeDbErr_def exampleTx_def)
  have 2: "StoreBlock exampleEnv exampleTx ?b
             = (Err (DbError ErrDriverSpecific (Some (OtherError 3))),
                snd (StoreBlock exampleEnv exampleTx ?b))"
    by (simp add: StoreBlock_def checkClosed_def makeDbErr_def exampleTx_def exampleEnv_def
        exampleBlock_def hasBlock_def hasKey_def pendingIndex_def bucketizedKey_def
        treapHas_def snapshotHas_def)
  show ?thesis
    using C10_StoreBlock_error_no_effect [OF 1] C10_StoreBlock_error_no_effect [OF 2] 1 2
    by simp
qed

section \<open>Closed and managed transactions\<close>








text \<open>
  Claim C5, as stated, fails: on a closed transaction \<open>BeenPruned\<close> does not look at the
  \<open>closed\<close> flag and answers from the block files; and \<open>Commit\<close> and \<open>Rollback\<close> test
  \<open>managed\<close> before \<open>closed\<close>, so on a closed managed transaction they run \<open>close\<close>
  again instead of returning \<open>TxClosed\<close>, which with the locks already released ends
  in the fatal error of \<open>RUnlock\<close>.
\<close>

theorem C5_counterexample:
  "closed closedTx \<and> BeenPruned exampleEnv 0 closedTx = Ok False
   \<and> closed (closedTx\<lparr>managed := True\<rparr>)
   \<and> fst (Commit exampleEnv exampleDb noLocks (closedTx\<lparr>managed := True\<rparr>))
       = Fatal ''sync: RUnlock of unlocked RWMutex''
   \<and> fst (Rollback exampleDb noLocks (closedTx\<lparr>managed := True\<rparr>))
       = Fatal ''sync: RUnlock of unlocked RWMutex''"
  by (simp add: closedTx_def BeenPruned_def exampleEnv_def Commit_def Rollback_def
      close_def closeMdbTxs_def exampleDb_def noLocks_def)

text \<open>
  Claim C5, amended. On a closed transaction \<open>HasBlock\<close>, \<open>HasBlocks\<close>, \<open>StoreBlock\<close>,
  \<open>FetchBlock\<close>, \<open>FetchBlocks\<close>, \<open>FetchBlockRegion\<close>, \<open>FetchBlockRegions\<close> and
  \<open>PruneBlocks\<close> fail with \<open>TxClosed\<close>, and so do \<open>Commit\<close> and \<open>Rollback\<close> when the
  transaction is not managed. None of them changes the transaction, the database or its
  locks.
\<close>

theorem C5_closed_transaction:
  assumes "closed tx"
  shows "HasBlock env tx h = Err (DbError ErrTxClosed None)
       \<and> HasBlocks env tx hs = Err (DbError ErrTxClosed None)
       \<and> StoreBlock env tx blk = (Err (DbError ErrTxClosed None), tx)
       \<and> FetchBlock env w tx h = Err (DbError ErrTxClosed None)
       \<and> FetchBlocks env w tx hs = Err (DbError ErrTxClosed None)
       \<and> FetchBlockRegion env w tx region = Err (DbError ErrTxClosed None)
       \<and> FetchBlockRegions env w tx regions = (Err (DbError ErrTxClosed None), [])
       \<and> PruneBlocks env w tx targetSize = (Err (DbError ErrTxClosed None), tx)
       \<and> (\<not> managed tx \<longrightarrow>
            Commit env d l tx = (Result (Err (DbError ErrTxClosed None)), d, l, tx)
          \<and> Rollback d l tx = (Result (Err (DbError ErrTxClosed None)), d, l, tx))"
  using assms
  by (simp add: HasBlock_def HasBlocks_def StoreBlock_def FetchBlock_def FetchBlocks_def
      FetchBlockRegion_def FetchBlockRegions_def PruneBlocks_def Commit_def Rollback_def
      checkClosed_def makeDbErr_def)

theorem C5_witness:
  "closed closedTx \<and> \<not> managed closedTx
   \<and> HasBlock exampleEnv closedTx [5] = Err (DbError ErrTxClosed None)
   \<and> PruneBlocks exampleEnv 0 closedTx 200 = (Err (DbError ErrTxClosed None), closedTx)
   \<and> Commit exampleEnv exampleDb noLocks closedTx
       = (Result (Err (DbError ErrTxClosed None)), exampleDb, noLocks, closedTx)
   \<and> Rollback exampleDb noLocks closedTx
       = (Result (Err (DbError ErrTxClosed None)), exampleDb, noLocks, closedTx)"
proof -
  have c: "closed closedTx" and m: "\<not> managed closedTx"
    by (simp_all add: closedTx_def)
  show ?thesis
    using C5_closed_transaction [OF c, where env = exampleEnv and h = "[5]" and w = 0
        and targetSize = 200 and d = exampleDb and l = noLocks] c m
    by simp
qed

section \<open>FetchBlockRegion\<close>

lemmas example_simps =
  exampleTx_def exampleEnv_def exampleDeserialize_def pendingTx_def
  FetchBlockRegion_def checkClosed_def makeDbErr_def pendingRegion_def fetchPendingRegion_def
  pendingIndex_def fetchBlockRow_def bucketGet_def fetchKey_def bucketizedKey_def
  treapHas_def treapGet_def snapshotGet_def regionOutOfBounds_def uint32_len_def
  sliceRegion_def Let_def









section \<open>writePendingAndCommit\<close>

text \<open>
  Claim C2. The claim asks for \<open>handleRollback\<close> with the anchored write position on
  every failure after the first block append, a failure of \<open>cache.commitTx\<close> included.
  With one file to delete and one pending block, a failing \<open>commitTx\<close> returns its error
  after the calls \<open>DeleteFile\<close>, \<open>WriteBlock\<close>, \<open>CommitTx\<close>: the store is left at
  offset 3 and \<open>handleRollback\<close> is never called. A failing \<open>writeBlock\<close> on the same
  transaction does call \<open>handleRollback\<close> with the anchor (0, 0).
\<close>

theorem C2_commitTx_failure_without_rollback:
  "fst (writePendingAndCommit cacheFailEnv exampleDb pruningPendingTx)
     = Err (OtherError 7)
   \<and> fst (snd (writePendingAndCommit cacheFailEnv exampleDb pruningPendingTx))
     = \<lparr>store = 3, calls = [DeleteFile 0, WriteBlock 1 [1, 2, 3], CommitTx]\<rparr>
   \<and> fst (writePendingAndCommit writeFailEnv exampleDb pruningPendingTx)
     = Err (OtherError 8)
   \<and> fst (snd (writePendingAndCommit writeFailEnv exampleDb pruningPendingTx))
     = \<lparr>store = 0, calls = [DeleteFile 0, WriteBlock 1 [1, 2, 3], HandleRollback 0 0]\<rparr>"
  by (simp add: writePendingAndCommit_def cacheFailEnv_def writeFailEnv_def
      exampleEnv_def exampleDb_def pruningPendingTx_def pendingTx_def exampleTx_def called_def
      rollback_def bucketPut_def putKey_def bucketizedKey_def notifyActiveIters_def
      treapDelete_def treapPut_def Let_def)

section \<open>FetchBlockRegions\<close>

lemma resolveRegions_Ok:
  "resolveRegions env tx rs i brs fl = Ok (brs', fl') \<Longrightarrow>
     brs' = fillPending env tx rs i brs
     \<and> fl' = fl @ fetchListOf env tx rs i
     \<and> (\<forall>r \<in> set rs. \<exists>x. resolveRegion env tx r = Ok x)"
proof (induction rs arbitrary: i brs fl)
  case Nil
  then show ?case by simp
next
  case (Cons r rs)
  show ?case
  proof (cases "resolveRegion env tx r")
    case (Ok x)
    show ?thesis
    proof (cases x)
      case (Inl b)
      with Ok Cons.prems
      have "resolveRegions env tx rs (i + 1) (brs[i := b]) fl = Ok (brs', fl')"
        by simp
      from Cons.IH [OF this] show ?thesis
        using Ok Inl by simp
    next
      case (Inr loc)
      with Ok Cons.prems
      have "resolveRegions env tx rs (i + 1) brs (fl @ [\<lparr>location = loc, replyIndex = i\<rparr>])
              = Ok (brs', fl')"
        by simp
      from Cons.IH [OF this] show ?thesis
        using Ok Inr by simp
    qed
  next
    case (Err e)
    with Cons.prems show ?thesis by simp
  next
    case (Panic m)
    with Cons.prems show ?thesis by simp
  qed
qed

lemma fillPending_length: "length (fillPending env tx rs i brs) = length brs"
  by (induction rs arbitrary: i brs) (auto split: result.splits sum.splits)

lemma fillPending_keep: "k < i \<Longrightarrow> fillPending env tx rs i brs ! k = brs ! k"
  by (induction rs arbitrary: i brs) (auto split: result.splits sum.splits)

lemma fillPending_nth:
  "j < length rs \<Longrightarrow> i + j < length brs \<Longrightarrow> resolveRegion env tx (rs ! j) = Ok (Inl b) \<Longrightarrow>
   fillPending env tx rs i brs ! (i + j) = b"
proof (induction rs arbitrary: i brs j)
  case Nil
  then show ?case by simp
next
  case (Cons r rs)
  show ?case
  proof (cases j)
    case 0
    have "fillPending env tx rs (i + 1) (brs[i := b]) ! i = (brs[i := b]) ! i"
      by (rule fillPending_keep) simp
    then show ?thesis
      using 0 Cons.prems by simp
  next
    case (Suc j')
    have a: "j' < length rs" using Cons.prems(1) Suc by simp
    have c: "resolveRegion env tx (rs ! j') = Ok (Inl b)" using Cons.prems(3) Suc by simp
    have "fillPending env tx rs (i + 1) brs0 ! (i + 1 + j') = b"
      if "length brs0 = length brs" for brs0
      using Cons.IH [OF a _ c, of "i + 1" brs0] Cons.prems(2) Suc that by simp
    then show ?thesis
      using Suc by (auto split: result.splits sum.splits)
  qed
qed

lemma resolveRegions_first_error:
  "j < length rs \<Longrightarrow> \<forall>j' < j. \<exists>x. resolveRegion env tx (rs ! j') = Ok x \<Longrightarrow>
   resolveRegion env tx (rs ! j) = Err e \<Longrightarrow>
   resolveRegions env tx rs i brs fl = Err e"
proof (induction rs arbitrary: j i brs fl)
  case Nil
  then show ?case by simp
next
  case (Cons r rs)
  show ?case
  proof (cases j)
    case 0
    with Cons.prems show ?thesis by simp
  next
    case (Suc j')
    from Cons.prems(2) Suc obtain x where x: "resolveRegion env tx r = Ok x"
      by fastforce
    have a: "j' < length rs" using Cons.prems(1) Suc by simp
    have b: "\<forall>k < j'. \<exists>x. resolveRegion env tx (rs ! k) = Ok x"
      using Cons.prems(2) Suc by fastforce
    have c: "resolveRegion env tx (rs ! j') = Err e"
      using Cons.prems(3) Suc by simp
    show ?thesis
      using x Cons.IH [OF a b c] by (cases x) simp_all
  qed
qed

lemma fetchListOf_set:
  "fd \<in> set (fetchListOf env tx rs i) \<longleftrightarrow>
     (\<exists>j < length rs. resolveRegion env tx (rs ! j) = Ok (Inr (location fd))
        \<and> replyIndex fd = i + j)"
proof (induction rs arbitrary: i)
  case Nil
  then show ?case by simp
next
  case (Cons r rs)
  have split: "(\<exists>j < length (r # rs). P j) \<longleftrightarrow> P 0 \<or> (\<exists>j < length rs. P (Suc j))" for P
    by (auto simp: less_Suc_eq_0_disj)
  show ?case
    unfolding split
    by (cases "resolveRegion env tx r")
       (auto simp: Cons.IH split: sum.splits)
qed

lemma fetchListOf_distinct: "distinct (map replyIndex (fetchListOf env tx rs i))"
proof (induction rs arbitrary: i)
  case Nil
  then show ?case by simp
next
  case (Cons r rs)
  have "i \<notin> replyIndex ` set (fetchListOf env tx rs (i + 1))"
    by (auto simp: fetchListOf_set)
  then show ?case
    using Cons.IH [of "i + 1"]
    by (auto split: result.splits sum.splits)
qed

lemma fetchListOf_reads:
  "map (readOf (pre @ rs)) (fetchListOf env tx rs (length pre)) = diskReads env tx rs"
proof (induction rs arbitrary: pre)
  case Nil
  then show ?case by (simp add: diskReads_def)
next
  case (Cons r rs)
  have "map (readOf ((pre @ [r]) @ rs)) (fetchListOf env tx rs (length (pre @ [r])))
          = diskReads env tx rs"
    by (rule Cons.IH)
  then have ih: "map (readOf (pre @ r # rs)) (fetchListOf env tx rs (length pre + 1))
          = diskReads env tx rs"
    by simp
  show ?case
    using ih
    by (auto simp: diskReads_def diskReadOf_def readOf_def split: result.splits sum.splits)
qed


lemma readRegions_reads:
  "readRegions env w regions fs brs reads = (r, reads') \<Longrightarrow>
     \<exists>k \<le> length fs. reads' = reads @ map (readOf regions) (take k fs)"
proof (induction fs arbitrary: brs reads)
  case Nil
  then show ?case by simp
next
  case (Cons fd fs)
  show ?case
  proof (cases "replyIndex fd < length regions")
    case False
    with Cons.prems have "reads' = reads" by simp
    then show ?thesis by (intro exI [of _ 0]) simp
  next
    case True
    let ?reg = "regions ! replyIndex fd"
    show ?thesis
    proof (cases "readBlockRegion env w (location fd) (Offset ?reg) (Len ?reg)")
      case (Inl e)
      with True Cons.prems have "reads' = reads @ [readOf regions fd]"
        by (simp add: Let_def readOf_def)
      then show ?thesis by (intro exI [of _ 1]) simp
    next
      case (Inr b)
      with True Cons.prems
      have "readRegions env w regions fs (brs[replyIndex fd := b])
              (reads @ [readOf regions fd]) = (r, reads')"
        by (simp add: Let_def readOf_def)
      from Cons.IH [OF this] obtain k where
        "k \<le> length fs" "reads' = (reads @ [readOf regions fd]) @ map (readOf regions) (take k fs)"
        by blast
      then show ?thesis by (intro exI [of _ "Suc k"]) simp
    qed
  qed
qed

lemma readRegions_Ok:
  "readRegions env w regions fs brs reads = (Ok brs', reads') \<Longrightarrow>
     reads' = reads @ map (readOf regions) fs \<and> length brs' = length brs
     \<and> (\<forall>k. k \<notin> replyIndex ` set fs \<longrightarrow> brs' ! k = brs ! k)
     \<and> (distinct (map replyIndex fs) \<longrightarrow>
          (\<forall>fd \<in> set fs. replyIndex fd < length brs \<longrightarrow>
             readBlockRegion env w (location fd) (Offset (regions ! replyIndex fd))
               (Len (regions ! replyIndex fd)) = Inr (brs' ! replyIndex fd)))"
proof (induction fs arbitrary: brs reads)
  case Nil
  then show ?case by simp
next
  case (Cons fd fs)
  let ?ri = "replyIndex fd"
  let ?reg = "regions ! ?ri"
  from Cons.prems have ri: "?ri < length regions"
    by (auto simp: Let_def split: if_splits)
  from Cons.prems ri obtain b where
    rd: "readBlockRegion env w (location fd) (Offset ?reg) (Len ?reg) = Inr b"
    and rec: "readRegions env w regions fs (brs[?ri := b]) (reads @ [readOf regions fd])
               = (Ok brs', reads')"
    by (auto simp: Let_def readOf_def split: sum.splits)
  note ih = Cons.IH [OF rec]
  have 1: "reads' = reads @ map (readOf regions) (fd # fs)"
    using ih by simp
  have 2: "length brs' = length brs"
    using ih by simp
  have 3: "\<forall>k. k \<notin> replyIndex ` set (fd # fs) \<longrightarrow> brs' ! k = brs ! k"
    using ih by auto
  have 4: "\<forall>x \<in> set (fd # fs). replyIndex x < length brs \<longrightarrow>
             readBlockRegion env w (location x) (Offset (regions ! replyIndex x))
               (Len (regions ! replyIndex x)) = Inr (brs' ! replyIndex x)"
    if d: "distinct (map replyIndex (fd # fs))"
  proof (intro ballI impI)
    fix x assume x: "x \<in> set (fd # fs)" and l: "replyIndex x < length brs"
    show "readBlockRegion env w (location x) (Offset (regions ! replyIndex x))
               (Len (regions ! replyIndex x)) = Inr (brs' ! replyIndex x)"
    proof (cases "x \<in> set fs")
      case True
      then show ?thesis using ih d l by simp
    next
      case False
      then have xf: "x = fd" using x by simp
      have "?ri \<notin> replyIndex ` set fs" using d by simp
      then have "brs' ! ?ri = (brs[?ri := b]) ! ?ri" using ih by blast
      then show ?thesis using rd l xf by simp
    qed
  qed
  show ?case using 1 2 3 4 by blast
qed

lemma not_Less_ascending:
  "\<not> Less b a \<longleftrightarrow>
     unat (blockFileNum (location a)) < unat (blockFileNum (location b))
     \<or> (unat (blockFileNum (location a)) = unat (blockFileNum (location b))
         \<and> unat (fileOffset (location a)) \<le> unat (fileOffset (location b)))"
  by (auto simp: Less_def word_less_nat_alt word_le_nat_alt split: if_splits)

lemma pending_not_read:
  "pendingIndex tx (Hash region) \<noteq> None \<Longrightarrow> diskReadOf env tx region = []"
  by (auto simp: diskReadOf_def resolveRegion_def pendingRegion_def fetchPendingRegion_def
      pendingIndex_def Let_def split: option.splits)

lemma FetchBlockRegion_resolved:
  assumes "\<not> closed tx"
  shows "resolveRegion env tx region = Ok (Inl b) \<Longrightarrow> FetchBlockRegion env w tx region = Ok b"
    and "resolveRegion env tx region = Ok (Inr loc) \<Longrightarrow>
         readBlockRegion env w loc (Offset region) (Len region) = Inr b \<Longrightarrow>
         FetchBlockRegion env w tx region = Ok b"
  using assms
  by (auto simp: resolveRegion_def FetchBlockRegion_def checkClosed_def
      split: result.splits option.splits sum.splits if_splits)


lemma FetchBlockRegions_resolved:
  assumes "\<not> closed tx"
    and "resolveRegions env tx regions 0 (replicate (length regions) []) [] = Ok (brs1, fl)"
  shows "FetchBlockRegions env w tx regions
           = readRegions env w regions (sortFetchList env fl) brs1 []"
  using assms by (simp add: FetchBlockRegions_def checkClosed_def)

lemma sorted_reads:
  assumes "sorted_wrt (\<lambda>a b. \<not> Less b a) fs"
  shows "readsAscending (map (readOf regions) (take k fs))"
proof -
  have "sorted_wrt (\<lambda>a b. \<not> Less b a) (take k fs)"
    using assms by (rule sorted_wrt_take)
  then show ?thesis
    by (simp add: readsAscending_def sorted_wrt_map not_Less_ascending readOf_def)
qed

lemma resolveRegions_all_ok:
  "\<forall>region \<in> set rs. \<exists>x. resolveRegion env tx region = Ok x \<Longrightarrow>
   resolveRegions env tx rs i brs fl
     = Ok (fillPending env tx rs i brs, fl @ fetchListOf env tx rs i)"
proof (induction rs arbitrary: i brs fl)
  case Nil
  then show ?case by simp
next
  case (Cons r rs)
  from Cons.prems obtain x where x: "resolveRegion env tx r = Ok x"
    by auto
  have rest: "\<forall>region \<in> set rs. \<exists>x. resolveRegion env tx region = Ok x"
    using Cons.prems by simp
  show ?case
    using x Cons.IH [OF rest] by (cases x) simp_all
qed

lemma readRegions_first_error:
  "k < length fs \<Longrightarrow> \<forall>j < k. \<exists>b. readResultOf env w regions (fs ! j) = Inr b \<Longrightarrow>
   readResultOf env w regions (fs ! k) = Inl e \<Longrightarrow>
   \<forall>fd \<in> set fs. replyIndex fd < length regions \<Longrightarrow>
   readRegions env w regions fs brs reads
     = (Err e, reads @ map (readOf regions) (take (Suc k) fs))"
proof (induction fs arbitrary: k brs reads)
  case Nil
  then show ?case by simp
next
  case (Cons fd fs)
  have ri: "replyIndex fd < length regions"
    using Cons.prems(4) by simp
  show ?case
  proof (cases k)
    case 0
    then show ?thesis
      using Cons.prems(3) ri by (simp add: readResultOf_def readOf_def Let_def)
  next
    case (Suc k')
    from Cons.prems(2) Suc obtain b where b: "readResultOf env w regions fd = Inr b"
      by fastforce
    have 1: "k' < length fs" using Cons.prems(1) Suc by simp
    have 2: "\<forall>j < k'. \<exists>b. readResultOf env w regions (fs ! j) = Inr b"
      using Cons.prems(2) Suc by fastforce
    have 3: "readResultOf env w regions (fs ! k') = Inl e"
      using Cons.prems(3) Suc by simp
    have 4: "\<forall>fd \<in> set fs. replyIndex fd < length regions"
      using Cons.prems(4) by simp
    show ?thesis
      using b ri Suc Cons.IH [OF 1 2 3 4]
      by (simp add: readResultOf_def readOf_def Let_def)
  qed
qed

lemma readRegions_all_ok:
  "\<forall>fd \<in> set fs. \<exists>b. readResultOf env w regions fd = Inr b \<Longrightarrow>
   \<forall>fd \<in> set fs. replyIndex fd < length regions \<Longrightarrow>
   \<exists>bs. fst (readRegions env w regions fs brs reads) = Ok bs"
proof (induction fs arbitrary: brs reads)
  case Nil
  then show ?case by simp
next
  case (Cons fd fs)
  from Cons.prems(1) obtain b where b: "readResultOf env w regions fd = Inr b"
    by auto
  have ri: "replyIndex fd < length regions"
    using Cons.prems(2) by simp
  have 1: "\<forall>fd \<in> set fs. \<exists>b. readResultOf env w regions fd = Inr b"
    using Cons.prems(1) by simp
  have 2: "\<forall>fd \<in> set fs. replyIndex fd < length regions"
    using Cons.prems(2) by simp
  show ?case
    using b ri Cons.IH [OF 1 2] by (simp add: readResultOf_def Let_def)
qed

text \<open>
  Claim C4. For an open transaction and a \<open>sort.Sort\<close> that sorts by \<open>Less\<close>: the disk
  reads are issued in ascending order of (file number, file offset); they are reads of
  regions whose block is not pending, each at most once, and a region of a pending block
  needs no disk read; on success every disk region is read, the result has one entry per
  input region, and the entry at index \<open>i\<close> is what \<open>FetchBlockRegion\<close> returns for the
  region at index \<open>i\<close>, whatever the order of the reads. The first error ends the call
  without results: when a region fails to resolve, the call returns the error of the
  first such region and reads nothing; when every region resolves and a read of the
  sorted fetch list fails, the call returns the error of the first such read, which is
  the last read issued. When every region resolves and every read succeeds, the call
  succeeds.
\<close>

theorem C4_FetchBlockRegions:
  assumes op: "\<not> closed tx"
    and srt: "sortsByLess (sortFetchList env)"
    and res: "FetchBlockRegions env w tx regions = (r, reads)"
  shows "readsAscending reads
       \<and> mset reads \<subseteq># mset (diskReads env tx regions)
       \<and> (\<forall>region \<in> set regions.
             pendingIndex tx (Hash region) \<noteq> None \<longrightarrow> diskReadOf env tx region = [])
       \<and> (\<forall>bs. r = Ok bs \<longrightarrow>
             mset reads = mset (diskReads env tx regions)
             \<and> length bs = length regions
             \<and> (\<forall>i < length regions. FetchBlockRegion env w tx (regions ! i) = Ok (bs ! i)))
       \<and> (\<forall>i e. i < length regions
             \<and> (\<forall>j < i. \<exists>x. resolveRegion env tx (regions ! j) = Ok x)
             \<and> resolveRegion env tx (regions ! i) = Err e
             \<longrightarrow> r = Err e \<and> reads = [])
       \<and> ((\<forall>region \<in> set regions. \<exists>x. resolveRegion env tx region = Ok x) \<longrightarrow>
             (\<forall>k e. k < length (sortFetchList env (fetchListOf env tx regions 0))
                \<and> (\<forall>j < k. \<exists>b. readResultOf env w regions
                                  (sortFetchList env (fetchListOf env tx regions 0) ! j) = Inr b)
                \<and> readResultOf env w regions
                     (sortFetchList env (fetchListOf env tx regions 0) ! k) = Inl e
                \<longrightarrow> r = Err e
                    \<and> reads = map (readOf regions)
                                (take (Suc k) (sortFetchList env (fetchListOf env tx regions 0))))
           \<and> ((\<forall>fd \<in> set (sortFetchList env (fetchListOf env tx regions 0)).
                  \<exists>b. readResultOf env w regions fd = Inr b)
                \<longrightarrow> (\<exists>bs. r = Ok bs)))"
proof -
  let ?n = "length regions"
  let ?rr = "resolveRegions env tx regions 0 (replicate ?n []) []"
  let ?fl = "fetchListOf env tx regions 0"
  let ?fs = "sortFetchList env ?fl"
  have ms: "mset ?fs = mset ?fl" and so: "sorted_wrt (\<lambda>a b. \<not> Less b a) ?fs"
    using srt by (simp_all add: sortsByLess_def)
  have setfs: "set ?fs = set ?fl"
    using ms by (rule mset_eq_setD)
  have inrange: "\<forall>fd \<in> set ?fs. replyIndex fd < ?n"
    unfolding setfs by (auto simp: fetchListOf_set)
  have pend: "\<forall>region \<in> set regions.
             pendingIndex tx (Hash region) \<noteq> None \<longrightarrow> diskReadOf env tx region = []"
    by (simp add: pending_not_read)
  have first: "\<forall>i e. i < ?n
             \<and> (\<forall>j < i. \<exists>x. resolveRegion env tx (regions ! j) = Ok x)
             \<and> resolveRegion env tx (regions ! i) = Err e
             \<longrightarrow> r = Err e \<and> reads = []"
  proof (intro allI impI, elim conjE)
    fix i e
    assume "i < ?n" "\<forall>j < i. \<exists>x. resolveRegion env tx (regions ! j) = Ok x"
      "resolveRegion env tx (regions ! i) = Err e"
    then have "?rr = Err e"
      by (rule resolveRegions_first_error)
    then show "r = Err e \<and> reads = []"
      using op res by (simp add: FetchBlockRegions_def checkClosed_def)
  qed
  have readerr: "(\<forall>region \<in> set regions. \<exists>x. resolveRegion env tx region = Ok x) \<longrightarrow>
             (\<forall>k e. k < length ?fs
                \<and> (\<forall>j < k. \<exists>b. readResultOf env w regions (?fs ! j) = Inr b)
                \<and> readResultOf env w regions (?fs ! k) = Inl e
                \<longrightarrow> r = Err e \<and> reads = map (readOf regions) (take (Suc k) ?fs))
           \<and> ((\<forall>fd \<in> set ?fs. \<exists>b. readResultOf env w regions fd = Inr b)
                \<longrightarrow> (\<exists>bs. r = Ok bs))"
  proof (intro impI)
    assume "\<forall>region \<in> set regions. \<exists>x. resolveRegion env tx region = Ok x"
    then have "?rr = Ok (fillPending env tx regions 0 (replicate ?n []), [] @ ?fl)"
      by (rule resolveRegions_all_ok)
    then have rr: "?rr = Ok (fillPending env tx regions 0 (replicate ?n []), ?fl)"
      by simp
    have run: "readRegions env w regions ?fs (fillPending env tx regions 0 (replicate ?n [])) []
                 = (r, reads)"
      using FetchBlockRegions_resolved [OF op rr] res by simp
    have a: "\<forall>k e. k < length ?fs
                \<and> (\<forall>j < k. \<exists>b. readResultOf env w regions (?fs ! j) = Inr b)
                \<and> readResultOf env w regions (?fs ! k) = Inl e
                \<longrightarrow> r = Err e \<and> reads = map (readOf regions) (take (Suc k) ?fs)"
    proof (intro allI impI, elim conjE)
      fix k e
      assume "k < length ?fs" "\<forall>j < k. \<exists>b. readResultOf env w regions (?fs ! j) = Inr b"
        "readResultOf env w regions (?fs ! k) = Inl e"
      then have "readRegions env w regions ?fs
                   (fillPending env tx regions 0 (replicate ?n [])) []
                 = (Err e, [] @ map (readOf regions) (take (Suc k) ?fs))"
        using inrange by (rule readRegions_first_error)
      then show "r = Err e \<and> reads = map (readOf regions) (take (Suc k) ?fs)"
        using run by simp
    qed
    have b: "(\<forall>fd \<in> set ?fs. \<exists>b. readResultOf env w regions fd = Inr b)
                \<longrightarrow> (\<exists>bs. r = Ok bs)"
    proof
      assume "\<forall>fd \<in> set ?fs. \<exists>b. readResultOf env w regions fd = Inr b"
      then have "\<exists>bs. fst (readRegions env w regions ?fs
                   (fillPending env tx regions 0 (replicate ?n [])) []) = Ok bs"
        using inrange by (rule readRegions_all_ok)
      then show "\<exists>bs. r = Ok bs"
        using run by simp
    qed
    show "(\<forall>k e. k < length ?fs
                \<and> (\<forall>j < k. \<exists>b. readResultOf env w regions (?fs ! j) = Inr b)
                \<and> readResultOf env w regions (?fs ! k) = Inl e
                \<longrightarrow> r = Err e \<and> reads = map (readOf regions) (take (Suc k) ?fs))
           \<and> ((\<forall>fd \<in> set ?fs. \<exists>b. readResultOf env w regions fd = Inr b)
                \<longrightarrow> (\<exists>bs. r = Ok bs))"
      using a b by (rule conjI)
  qed
  have main: "readsAscending reads
       \<and> mset reads \<subseteq># mset (diskReads env tx regions)
       \<and> (\<forall>bs. r = Ok bs \<longrightarrow>
             mset reads = mset (diskReads env tx regions)
             \<and> length bs = length regions
             \<and> (\<forall>i < length regions. FetchBlockRegion env w tx (regions ! i) = Ok (bs ! i)))"
  proof (cases ?rr)
    case (Err e)
    then have "reads = []" and "\<forall>bs. r \<noteq> Ok bs"
      using op res by (auto simp: FetchBlockRegions_def checkClosed_def)
    then show ?thesis by (simp add: readsAscending_def)
  next
    case (Panic m)
    then have "reads = []" and "\<forall>bs. r \<noteq> Ok bs"
      using op res by (auto simp: FetchBlockRegions_def checkClosed_def)
    then show ?thesis by (simp add: readsAscending_def)
  next
    case (Ok p)
    obtain brs1 fl where p: "p = (brs1, fl)" by (cases p)
    from Ok p have rr: "?rr = Ok (brs1, fl)" by simp
    from resolveRegions_Ok [OF rr]
    have brs1: "brs1 = fillPending env tx regions 0 (replicate ?n [])"
      and fl: "fl = ?fl"
      and allok: "\<forall>region \<in> set regions. \<exists>x. resolveRegion env tx region = Ok x"
      by simp_all
    have "mset (map replyIndex ?fs) = mset (map replyIndex ?fl)"
      using ms by (metis mset_map)
    then have dist: "distinct (map replyIndex ?fs)"
      using fetchListOf_distinct [of env tx regions 0]
      by (metis mset_eq_imp_distinct_iff)
    have dr: "map (readOf regions) ?fl = diskReads env tx regions"
      using fetchListOf_reads [of "[]" regions env tx] by simp
    have msr: "mset (map (readOf regions) ?fs) = mset (diskReads env tx regions)"
      using ms dr by (metis mset_map)
    have run: "readRegions env w regions ?fs brs1 [] = (r, reads)"
      using FetchBlockRegions_resolved [OF op rr] res fl by simp
    from readRegions_reads [OF run] obtain k where
      k: "reads = map (readOf regions) (take k ?fs)"
      by auto
    have sorted: "readsAscending reads"
      unfolding k using so by (rule sorted_reads)
    have "mset (take k ?fs) \<subseteq># mset ?fs"
      by (metis append_take_drop_id mset_append mset_subset_eq_add_left)
    then have "mset (map (readOf regions) (take k ?fs)) \<subseteq># mset (map (readOf regions) ?fs)"
      by (metis image_mset_subseteq_mono mset_map)
    then have sub: "mset reads \<subseteq># mset (diskReads env tx regions)"
      using k msr by simp
    have success: "\<forall>bs. r = Ok bs \<longrightarrow>
        mset reads = mset (diskReads env tx regions) \<and> length bs = ?n
        \<and> (\<forall>i < ?n. FetchBlockRegion env w tx (regions ! i) = Ok (bs ! i))"
    proof (intro allI impI)
      fix bs assume rb: "r = Ok bs"
      from run rb have run': "readRegions env w regions ?fs brs1 [] = (Ok bs, reads)"
        by simp
      note rok = readRegions_Ok [OF run']
      have r1: "reads = map (readOf regions) ?fs" using rok by simp
      have len1: "length brs1 = ?n" using brs1 by (simp add: fillPending_length)
      have len: "length bs = ?n" using rok len1 by simp
      have each: "FetchBlockRegion env w tx (regions ! i) = Ok (bs ! i)" if i: "i < ?n" for i
      proof -
        from allok i obtain x where x: "resolveRegion env tx (regions ! i) = Ok x"
          by (metis nth_mem)
        show ?thesis
        proof (cases x)
          case (Inl b)
          have "fillPending env tx regions 0 (replicate ?n []) ! (0 + i) = b"
            using i x Inl by (intro fillPending_nth) simp_all
          then have b1: "brs1 ! i = b" using brs1 by simp
          have "i \<notin> replyIndex ` set ?fs"
          proof
            assume "i \<in> replyIndex ` set ?fs"
            then obtain fd where "fd \<in> set ?fl" "replyIndex fd = i"
              using setfs by auto
            then have "resolveRegion env tx (regions ! i) = Ok (Inr (location fd))"
              by (auto simp: fetchListOf_set)
            then show False using x Inl by simp
          qed
          then have "bs ! i = brs1 ! i" using rok by blast
          then show ?thesis
            using FetchBlockRegion_resolved(1) [OF op, of env "regions ! i" b w] x Inl b1
            by simp
        next
          case (Inr loc)
          let ?fd = "\<lparr>location = loc, replyIndex = i\<rparr>"
          have "?fd \<in> set ?fl"
            using i x Inr by (auto simp: fetchListOf_set)
          then have "?fd \<in> set ?fs" using setfs by simp
          then have "readBlockRegion env w loc (Offset (regions ! i)) (Len (regions ! i))
                       = Inr (bs ! i)"
            using rok dist i len1 by fastforce
          then show ?thesis
            using FetchBlockRegion_resolved(2) [OF op, of env "regions ! i" loc w "bs ! i"] x Inr
            by simp
        qed
      qed
      show "mset reads = mset (diskReads env tx regions) \<and> length bs = ?n
        \<and> (\<forall>i < ?n. FetchBlockRegion env w tx (regions ! i) = Ok (bs ! i))"
        using r1 msr len each by simp
    qed
    show ?thesis using sorted sub success by blast
  qed
  show ?thesis using main pend first readerr by blast
qed

lemma mset_insertFetch: "mset (insertFetch x ys) = add_mset x (mset ys)"
  by (induction ys) auto

lemma set_insertFetch: "set (insertFetch x ys) = insert x (set ys)"
  by (induction ys) auto

lemma Less_asym: "Less a b \<Longrightarrow> \<not> Less b a"
  by (auto simp: Less_def split: if_splits)

lemma Less_negtrans: "\<not> Less b a \<Longrightarrow> \<not> Less c b \<Longrightarrow> \<not> Less c a"
  by (auto simp: Less_def split: if_splits)

lemma sorted_insertFetch:
  "sorted_wrt (\<lambda>a b. \<not> Less b a) ys \<Longrightarrow> sorted_wrt (\<lambda>a b. \<not> Less b a) (insertFetch x ys)"
proof (induction ys)
  case Nil
  then show ?case by simp
next
  case (Cons y ys)
  show ?case
  proof (cases "Less y x")
    case True
    then show ?thesis
      using Cons by (auto simp: set_insertFetch dest: Less_asym)
  next
    case False
    then show ?thesis
      using Cons.prems Less_negtrans [of y x] by auto
  qed
qed

lemma sortsByLess_insertionSortFetch: "sortsByLess insertionSortFetch"
proof -
  have "mset (insertionSortFetch xs) = mset xs
      \<and> sorted_wrt (\<lambda>a b. \<not> Less b a) (insertionSortFetch xs)" for xs
    unfolding insertionSortFetch_def
    by (induction xs) (simp_all add: mset_insertFetch sorted_insertFetch)
  then show ?thesis by (simp add: sortsByLess_def)
qed

lemma bulk_eval:
  "FetchBlockRegions exampleEnv 0 bulkTx bulkRegions
     = (Ok [[2, 100, 0, 2], [0, 50, 0, 2], [2, 3], [2, 10, 0, 2], [1, 0, 0, 2]],
        [(\<lparr>blockFileNum = 0, fileOffset = 50, blockLen = 10\<rparr>, 0, 2),
         (\<lparr>blockFileNum = 1, fileOffset = 0, blockLen = 10\<rparr>, 0, 2),
         (\<lparr>blockFileNum = 2, fileOffset = 10, blockLen = 10\<rparr>, 0, 2),
         (\<lparr>blockFileNum = 2, fileOffset = 100, blockLen = 10\<rparr>, 0, 2)])"
  by (simp add: FetchBlockRegions_def bulkTx_def bulkRegions_def resolveRegion_def
      insertionSortFetch_def Less_def example_simps)


lemma bulk_fail_eval:
  "FetchBlockRegions readFailEnv 0 bulkTx bulkRegions
     = (Err (OtherError 9),
        [(\<lparr>blockFileNum = 0, fileOffset = 50, blockLen = 10\<rparr>, 0, 2),
         (\<lparr>blockFileNum = 1, fileOffset = 0, blockLen = 10\<rparr>, 0, 2),
         (\<lparr>blockFileNum = 2, fileOffset = 10, blockLen = 10\<rparr>, 0, 2)])"
  by (simp add: FetchBlockRegions_def bulkTx_def bulkRegions_def resolveRegion_def
      insertionSortFetch_def Less_def readFailEnv_def example_simps)

theorem C4_witness:
  "\<not> closed bulkTx \<and> sortsByLess (sortFetchList exampleEnv)
   \<and> FetchBlockRegions exampleEnv 0 bulkTx bulkRegions
     = (Ok [[2, 100, 0, 2], [0, 50, 0, 2], [2, 3], [2, 10, 0, 2], [1, 0, 0, 2]],
        [(\<lparr>blockFileNum = 0, fileOffset = 50, blockLen = 10\<rparr>, 0, 2),
         (\<lparr>blockFileNum = 1, fileOffset = 0, blockLen = 10\<rparr>, 0, 2),
         (\<lparr>blockFileNum = 2, fileOffset = 10, blockLen = 10\<rparr>, 0, 2),
         (\<lparr>blockFileNum = 2, fileOffset = 100, blockLen = 10\<rparr>, 0, 2)])
   \<and> readsAscending
        [(\<lparr>blockFileNum = 0, fileOffset = 50, blockLen = 10\<rparr>, 0, 2),
         (\<lparr>blockFileNum = 1, fileOffset = 0, blockLen = 10\<rparr>, 0, 2),
         (\<lparr>blockFileNum = 2, fileOffset = 10, blockLen = 10\<rparr>, 0, 2),
         (\<lparr>blockFileNum = 2, fileOffset = 100, blockLen = 10\<rparr>, 0, 2)]
   \<and> FetchBlockRegion exampleEnv 0 bulkTx (bulkRegions ! 0) = Ok [2, 100, 0, 2]
   \<and> FetchBlockRegion exampleEnv 0 bulkTx (bulkRegions ! 2) = Ok [2, 3]
   \<and> FetchBlockRegion exampleEnv 0 bulkTx (bulkRegions ! 4) = Ok [1, 0, 0, 2]
   \<and> diskReadOf exampleEnv bulkTx (bulkRegions ! 2) = []
   \<and> sortsByLess (sortFetchList readFailEnv)
   \<and> FetchBlockRegions readFailEnv 0 bulkTx bulkRegions
     = (Err (OtherError 9),
        [(\<lparr>blockFileNum = 0, fileOffset = 50, blockLen = 10\<rparr>, 0, 2),
         (\<lparr>blockFileNum = 1, fileOffset = 0, blockLen = 10\<rparr>, 0, 2),
         (\<lparr>blockFileNum = 2, fileOffset = 10, blockLen = 10\<rparr>, 0, 2)])
   \<and> readsAscending
        [(\<lparr>blockFileNum = 0, fileOffset = 50, blockLen = 10\<rparr>, 0, 2),
         (\<lparr>blockFileNum = 1, fileOffset = 0, blockLen = 10\<rparr>, 0, 2),
         (\<lparr>blockFileNum = 2, fileOffset = 10, blockLen = 10\<rparr>, 0, 2)]"
proof -
  have op: "\<not> closed bulkTx"
    by (simp add: bulkTx_def pendingTx_def exampleTx_def)
  have srt: "sortsByLess (sortFetchList exampleEnv)"
    by (simp add: exampleEnv_def sortsByLess_insertionSortFetch)
  have srt2: "sortsByLess (sortFetchList readFailEnv)"
    by (simp add: readFailEnv_def exampleEnv_def sortsByLess_insertionSortFetch)
  note t = C4_FetchBlockRegions [OF op srt bulk_eval]
  note t2 = C4_FetchBlockRegions [OF op srt2 bulk_fail_eval]
  have asc: "readsAscending
        [(\<lparr>blockFileNum = 0, fileOffset = 50, blockLen = 10\<rparr>, 0, 2),
         (\<lparr>blockFileNum = 1, fileOffset = 0, blockLen = 10\<rparr>, 0, 2),
         (\<lparr>blockFileNum = 2, fileOffset = 10, blockLen = 10\<rparr>, 0, 2),
         (\<lparr>blockFileNum = 2, fileOffset = 100, blockLen = 10\<rparr>, 0, 2)]"
    using t by blast
  have asc2: "readsAscending
        [(\<lparr>blockFileNum = 0, fileOffset = 50, blockLen = 10\<rparr>, 0, 2),
         (\<lparr>blockFileNum = 1, fileOffset = 0, blockLen = 10\<rparr>, 0, 2),
         (\<lparr>blockFileNum = 2, fileOffset = 10, blockLen = 10\<rparr>, 0, 2)]"
    using t2 by blast
  have len: "length bulkRegions = 5"
    by (simp add: bulkRegions_def)
  have each: "\<forall>i < 5. FetchBlockRegion exampleEnv 0 bulkTx (bulkRegions ! i)
      = Ok ([[2, 100, 0, 2], [0, 50, 0, 2], [2, 3], [2, 10, 0, 2], [1, 0, 0, 2]] ! i)"
    using t len by simp
  have e0: "FetchBlockRegion exampleEnv 0 bulkTx (bulkRegions ! 0) = Ok [2, 100, 0, 2]"
    using each by fastforce
  have e2: "FetchBlockRegion exampleEnv 0 bulkTx (bulkRegions ! 2) = Ok [2, 3]"
    using each by fastforce
  have e4: "FetchBlockRegion exampleEnv 0 bulkTx (bulkRegions ! 4) = Ok [1, 0, 0, 2]"
    using each by fastforce
  have "bulkRegions ! 2 \<in> set bulkRegions"
    using len by simp
  moreover have "pendingIndex bulkTx (Hash (bulkRegions ! 2)) \<noteq> None"
    by (simp add: bulkRegions_def bulkTx_def pendingTx_def pendingIndex_def)
  ultimately have p: "diskReadOf exampleEnv bulkTx (bulkRegions ! 2) = []"
    using t by blast
  show ?thesis
    using op srt srt2 bulk_eval bulk_fail_eval asc asc2 e0 e2 e4 p by simp
qed

section \<open>PruneBlocks\<close>

lemma fileRun_length: "length (fileRun i n) = n"
  by (induction n arbitrary: i) auto

lemma fileRun_nth: "j < n \<Longrightarrow> fileRun i n ! j = i + word_of_nat j"
proof (induction n arbitrary: i j)
  case 0
  then show ?case by simp
next
  case (Suc n)
  show ?case
  proof (cases j)
    case 0
    then show ?thesis by simp
  next
    case (Suc j')
    then show ?thesis using Suc.IH [of j' "i + 1"] Suc.prems by (simp add: algebra_simps)
  qed
qed

lemma pruneFiles_run:
  "\<exists>n. pruneFiles i l m t dels dset tot
          = (dels @ fileRun i n, dset \<union> set (fileRun i n), tot - word_of_nat n * m)
       \<and> (\<forall>x \<in> set (fileRun i n). x < l)
       \<and> (\<forall>j. 0 < j \<and> j < n \<longrightarrow> t < tot - word_of_nat j * m)
       \<and> (0 < n \<and> tot - word_of_nat n * m \<le> t \<or> unat l \<le> unat i + n)
       \<and> (i < l \<longrightarrow> 0 < n)"
proof (induction i l m t dels dset tot rule: pruneFiles.induct)
  case (1 i l m t dels dset tot)
  show ?case
  proof (cases "i < l")
    case False
    then have "unat l \<le> unat i"
      by (simp add: word_less_nat_alt)
    then show ?thesis
      using False by (intro exI [of _ 0]) (simp add: pruneFiles.simps [of i l])
  next
    case lt: True
    show ?thesis
    proof (cases "tot - m \<le> t")
      case True
      then show ?thesis
        using lt by (intro exI [of _ 1]) (simp add: pruneFiles.simps [of i l])
    next
      case False
      from "1.IH" [OF lt refl refl refl False]
      obtain n where
        run: "pruneFiles (i + 1) l m t (dels @ [i]) (insert i dset) (tot - m)
                = ((dels @ [i]) @ fileRun (i + 1) n, insert i dset \<union> set (fileRun (i + 1) n),
                   tot - m - word_of_nat n * m)"
        and below: "\<forall>x \<in> set (fileRun (i + 1) n). x < l"
        and notyet: "\<forall>j. 0 < j \<and> j < n \<longrightarrow> t < tot - m - word_of_nat j * m"
        and stop: "0 < n \<and> tot - m - word_of_nat n * m \<le> t \<or> unat l \<le> unat (i + 1) + n"
        by blast
      have b: "unat i < unat l"
        using lt by (simp add: word_less_nat_alt)
      have "unat l < 2 ^ 32"
        using unsigned_less [of l, where 'a = nat] by simp
      then have suc: "unat (i + 1) = Suc (unat i)"
        using b by (simp add: unat_word_ariths)
      have alg: "tot - m - word_of_nat k * m = tot - word_of_nat (Suc k) * m" for k
        by (simp add: algebra_simps)
      have 1: "pruneFiles i l m t dels dset tot
          = (dels @ fileRun i (Suc n), dset \<union> set (fileRun i (Suc n)),
             tot - word_of_nat (Suc n) * m)"
        using lt False run by (simp add: pruneFiles.simps [of i l] alg)
      have 2: "\<forall>x \<in> set (fileRun i (Suc n)). x < l"
        using lt below by simp
      have 3: "\<forall>j. 0 < j \<and> j < Suc n \<longrightarrow> t < tot - word_of_nat j * m"
      proof (intro allI impI)
        fix j assume j: "0 < j \<and> j < Suc n"
        then obtain j' where j': "j = Suc j'" by (cases j) auto
        show "t < tot - word_of_nat j * m"
        proof (cases "j' = 0")
          case True
          then show ?thesis using False j' by simp
        next
          case nz: False
          then have "t < tot - m - word_of_nat j' * m"
            using notyet j j' by simp
          then show ?thesis by (simp add: alg j')
        qed
      qed
      have 4: "0 < Suc n \<and> tot - word_of_nat (Suc n) * m \<le> t \<or> unat l \<le> unat i + Suc n"
        using stop suc by (auto simp: alg)
      show ?thesis
        using 1 2 3 4 by (intro exI [of _ "Suc n"]) simp
    qed
  qed
qed


lemma PruneBlocks_domain_error:
  assumes "\<not> closed tx" and "writable tx" and "targetSize < ucast (maxBlockFileSize env)"
  shows "PruneBlocks env w tx targetSize = (Err FmtError, tx)"
  using assms by (simp add: PruneBlocks_def checkClosed_def Let_def)

lemma PruneBlocks_no_op:
  assumes "\<not> closed tx" and "writable tx"
    and "ucast (maxBlockFileSize env) \<le> targetSize"
    and "scanBlockFiles env w = Inr (first, lastNum, lastFileSize)"
    and "first = lastNum \<or> totalBlockFileSize env first lastNum lastFileSize \<le> targetSize"
  shows "PruneBlocks env w tx targetSize = (Ok [], tx)"
proof -
  have "\<not> targetSize < ucast (maxBlockFileSize env)"
    using assms(3) by (simp add: not_less)
  moreover have "first = lastNum \<or> (first \<noteq> lastNum
          \<and> ucast lastFileSize + ucast (maxBlockFileSize env) * word_of_int (lastNum - first)
               \<le> targetSize)"
    using assms(5) by (auto simp: totalBlockFileSize_def)
  ultimately show ?thesis
    using assms(1,2,4) by (auto simp: PruneBlocks_def checkClosed_def Let_def)
qed

lemma PruneBlocks_files:
  assumes "\<not> closed tx" and "writable tx"
    and "ucast (maxBlockFileSize env) \<le> targetSize"
    and "scanBlockFiles env w = Inr (first, lastNum, lastFileSize)"
    and "first \<noteq> lastNum"
    and "targetSize < totalBlockFileSize env first lastNum lastFileSize"
  shows "\<exists>n. (\<forall>i \<in> set (fileRun (word_of_int first) n). i < word_of_int lastNum)
           \<and> (\<forall>j. 0 < j \<and> j < n \<longrightarrow>
                 targetSize < totalBlockFileSize env first lastNum lastFileSize
                                - word_of_nat j * ucast (maxBlockFileSize env))
           \<and> (0 < n \<and> totalBlockFileSize env first lastNum lastFileSize
                          - word_of_nat n * ucast (maxBlockFileSize env) \<le> targetSize
               \<or> unat (word_of_int lastNum :: 32 word)
                   \<le> unat (word_of_int first :: 32 word) + n)
           \<and> PruneBlocks env w tx targetSize
               = (case cursorFirst tx (blockIdxBucketID env) of
                    Panic msg \<Rightarrow>
                      (Panic msg, tx\<lparr>pendingDelFileNums :=
                                     pendingDelFileNums tx @ fileRun (word_of_int first) n\<rparr>)
                  | Err err \<Rightarrow>
                      (Err err, tx\<lparr>pendingDelFileNums :=
                                   pendingDelFileNums tx @ fileRun (word_of_int first) n\<rparr>)
                  | Ok c \<Rightarrow>
                      pruneIndex env (set (fileRun (word_of_int first) n)) c
                        (tx\<lparr>pendingDelFileNums :=
                              pendingDelFileNums tx @ fileRun (word_of_int first) n\<rparr>) [])"
proof -
  let ?max = "ucast (maxBlockFileSize env) :: 64 word"
  let ?total = "totalBlockFileSize env first lastNum lastFileSize"
  let ?f = "word_of_int first :: 32 word"
  let ?l = "word_of_int lastNum :: 32 word"
  from pruneFiles_run [of ?f ?l ?max targetSize "pendingDelFileNums tx" "{}" ?total]
  obtain n where
    run: "pruneFiles ?f ?l ?max targetSize (pendingDelFileNums tx) {} ?total
            = (pendingDelFileNums tx @ fileRun ?f n, {} \<union> set (fileRun ?f n),
               ?total - word_of_nat n * ?max)"
    and below: "\<forall>i \<in> set (fileRun ?f n). i < ?l"
    and notyet: "\<forall>j. 0 < j \<and> j < n \<longrightarrow> targetSize < ?total - word_of_nat j * ?max"
    and stop: "0 < n \<and> ?total - word_of_nat n * ?max \<le> targetSize \<or> unat ?l \<le> unat ?f + n"
    by blast
  have na: "\<not> targetSize < ?max" "\<not> ?total \<le> targetSize"
    using assms(3,6) by (simp_all add: not_less not_le)
  have "PruneBlocks env w tx targetSize
               = (case cursorFirst tx (blockIdxBucketID env) of
                    Panic msg \<Rightarrow>
                      (Panic msg, tx\<lparr>pendingDelFileNums := pendingDelFileNums tx @ fileRun ?f n\<rparr>)
                  | Err err \<Rightarrow>
                      (Err err, tx\<lparr>pendingDelFileNums := pendingDelFileNums tx @ fileRun ?f n\<rparr>)
                  | Ok c \<Rightarrow>
                      pruneIndex env (set (fileRun ?f n)) c
                        (tx\<lparr>pendingDelFileNums := pendingDelFileNums tx @ fileRun ?f n\<rparr>) [])"
    using assms(1,2,4,5) na run
    by (simp add: PruneBlocks_def checkClosed_def Let_def totalBlockFileSize_def
        cursorFirst_def cursorEntries_def overlayEntries_def
        cong: option.case_cong if_cong result.case_cong)
  then show ?thesis
    using below notyet stop by blast
qed



end
